theory Spec2Isabelle
  imports
    Complex_Main
    "HOL-Library.AList"
    "HOL-Library.Multiset"
    "HOL-Library.Sublist"
begin

section \<open>Smart Study Partner: quiz generation, grading and session state\<close>

text \<open>
  A shallow embedding of \<^verbatim>\<open>Main.py\<close>. The program is a Streamlit script: one function,
  \<^verbatim>\<open>generate_quiz\<close>, and a page script whose button handlers update
  \<^verbatim>\<open>st.session_state\<close>. What the script takes from outside is a parameter of the
  model: the HTTP call (\<open>post\<close>), \<^verbatim>\<open>json.loads\<close> (\<open>loads\<close>), the random draws of
  \<^verbatim>\<open>random.shuffle\<close> (\<open>rnd\<close>), the clock (\<open>clock\<close>) and the widgets' values.
\<close>

subsection \<open>Python values\<close>

text \<open>
  The values \<^verbatim>\<open>json.loads\<close> builds: \<^verbatim>\<open>None\<close>, \<^verbatim>\<open>bool\<close>, \<^verbatim>\<open>int\<close>, \<^verbatim>\<open>float\<close>, \<^verbatim>\<open>str\<close>,
  \<^verbatim>\<open>list\<close> and \<^verbatim>\<open>dict\<close> (string keys, in insertion order, each key once). A float is
  the real number it denotes; \<^verbatim>\<open>NaN\<close> and the infinities are not represented.
  A character is a code point below 256.
\<close>

datatype json =
    JNull
  | JBool bool
  | JInt int
  | JFloat real
  | JStr string
  | JArr "json list"
  | JObj "(string \<times> json) list"

text \<open>What an \<^verbatim>\<open>except\<close> clause of \<^verbatim>\<open>generate_quiz\<close> can tell apart:
  \<^verbatim>\<open>requests.exceptions.Timeout\<close>, any other \<^verbatim>\<open>RequestException\<close>, any other
  \<^verbatim>\<open>Exception\<close>; the string is \<^verbatim>\<open>str(e)\<close>.\<close>

datatype py_exc =
    Timeout
  | RequestException string
  | OtherException string

text \<open>\<^verbatim>\<open>type(v).__name__\<close>, as the interpreter's error messages print it.\<close>

fun type_name :: "json \<Rightarrow> string" where
  "type_name JNull = ''NoneType''"
| "type_name (JBool b) = ''bool''"
| "type_name (JInt i) = ''int''"
| "type_name (JFloat r) = ''float''"
| "type_name (JStr s) = ''str''"
| "type_name (JArr xs) = ''list''"
| "type_name (JObj kv) = ''dict''"

text \<open>Truth value of a Python object (\<^verbatim>\<open>not v\<close> is its negation).\<close>

fun truthy :: "json \<Rightarrow> bool" where
  "truthy JNull = False"
| "truthy (JBool b) = b"
| "truthy (JInt i) = (i \<noteq> 0)"
| "truthy (JFloat r) = (r \<noteq> 0)"
| "truthy (JStr s) = (s \<noteq> [])"
| "truthy (JArr xs) = (xs \<noteq> [])"
| "truthy (JObj kv) = (kv \<noteq> [])"

subsection \<open>Whitespace and the fence patterns (lines 91 to 93)\<close>

text \<open>\<^verbatim>\<open>str.isspace\<close> of one character, which is also what \<^verbatim>\<open>\s\<close> matches in a
  \<^verbatim>\<open>str\<close> pattern: tab, line feed, vertical tab, form feed, carriage return, the
  separators 28 to 31, space, and in Latin-1 the next-line and no-break-space characters.\<close>

definition isspace :: "char \<Rightarrow> bool" where
  "isspace c = (of_char c \<in> {9, 10, 11, 12, 13, 28, 29, 30, 31, 32, 133, 160 :: nat})"

text \<open>\<^verbatim>\<open>s.strip()\<close>.\<close>

definition strip :: "string \<Rightarrow> string" where
  "strip s = rev (dropWhile isspace (rev (dropWhile isspace s)))"

definition fence_open :: string where
  "fence_open = ''```json''"

definition fence_close :: string where
  "fence_close = ''```''"

text \<open>\<^verbatim>\<open>re.sub(r'^```json\s*', '', result)\<close>: without \<^verbatim>\<open>re.MULTILINE\<close> the anchor
  matches at position 0 only, so at most one occurrence goes: the opening fence and the
  whole whitespace run after it.\<close>

definition strip_open_fence :: "string \<Rightarrow> string" where
  "strip_open_fence s =
     (if take (length fence_open) s = fence_open
      then dropWhile isspace (drop (length fence_open) s) else s)"

text \<open>Where \<^verbatim>\<open>$\<close> matches without \<^verbatim>\<open>re.MULTILINE\<close>: at the end of the string and
  just before a line feed that ends the string. The argument is what is left of the
  string.\<close>

definition at_dollar :: "string \<Rightarrow> bool" where
  "at_dollar rest = (rest = [] \<or> rest = [CHR 0x0A])"

text \<open>A match of \<^verbatim>\<open>\s*```$\<close> starting at the head of \<open>s\<close>; the result is what follows
  the match. The greedy \<^verbatim>\<open>\s*\<close> never has to give a character back, since a backquote
  is not whitespace.\<close>

definition match_close_fence :: "string \<Rightarrow> string option" where
  "match_close_fence s =
     (let r = dropWhile isspace s in
      if take (length fence_close) r = fence_close \<and> at_dollar (drop (length fence_close) r)
      then Some (drop (length fence_close) r) else None)"

text \<open>\<^verbatim>\<open>re.sub(r'\s*```$', '', result)\<close>: the scan goes left to right and deletes the
  leftmost match. What follows a match is empty or one line feed, where the pattern
  cannot match again, so the scan ends there.\<close>

fun strip_close_fence :: "string \<Rightarrow> string" where
  "strip_close_fence [] = []"
| "strip_close_fence (c # cs) =
     (case match_close_fence (c # cs) of
        Some rest \<Rightarrow> rest
      | None \<Rightarrow> c # strip_close_fence cs)"

text \<open>Lines 91 to 93 together.\<close>

definition clean_response :: "string \<Rightarrow> string" where
  "clean_response result = strip (strip_close_fence (strip_open_fence result))"

text \<open>\<^verbatim>\<open>re.search(r'\{.*\}', result, re.DOTALL)\<close>, then \<^verbatim>\<open>match.group()\<close>: from the
  first opening brace to the last closing brace after it; no match when no closing brace
  follows the first opening one.\<close>

definition search_braces :: "string \<Rightarrow> string option" where
  "search_braces s =
     (case dropWhile (\<lambda>c. c \<noteq> CHR ''{'') s of
        [] \<Rightarrow> None
      | b # body \<Rightarrow>
          if CHR ''}'' \<in> set body
          then Some (b # rev (dropWhile (\<lambda>c. c \<noteq> CHR ''}'') (rev body)))
          else None)"

subsection \<open>Operations of the interpreter on these values\<close>

text \<open>\<^verbatim>\<open>str(n)\<close> of a natural number and of an integer, in decimal.\<close>

function show_nat :: "nat \<Rightarrow> string" where
  "show_nat n =
     (if n < 10 then [char_of (48 + n)]
      else show_nat (n div 10) @ [char_of (48 + n mod 10)])"
  by pat_completeness auto
termination
  by (relation "measure id") auto

declare show_nat.simps [simp del]

definition show_int :: "int \<Rightarrow> string" where
  "show_int i = (if i < 0 then CHR ''-'' # show_nat (nat (- i)) else show_nat (nat i))"

definition quoted :: "string \<Rightarrow> string" where
  "quoted s = CHR 0x27 # s @ [CHR 0x27]"

text \<open>The wording of the interpreter's own messages (CPython 3.10) is carried along for
  \<^verbatim>\<open>str(e)\<close>; nothing below depends on it.\<close>

text \<open>\<^verbatim>\<open>a == b\<close>. Numbers compare by value across \<^verbatim>\<open>bool\<close>, \<^verbatim>\<open>int\<close> and
  \<^verbatim>\<open>float\<close>; lists element by element; dicts as sets of items.\<close>

fun num_val :: "json \<Rightarrow> real option" where
  "num_val (JBool b) = Some (of_bool b)"
| "num_val (JInt i) = Some (of_int i)"
| "num_val (JFloat r) = Some r"
| "num_val v = None"

primrec py_eq :: "json \<Rightarrow> json \<Rightarrow> bool" where
  "py_eq JNull b = (b = JNull)"
| "py_eq (JBool x) b = (num_val b = Some (of_bool x))"
| "py_eq (JInt i) b = (num_val b = Some (of_int i))"
| "py_eq (JFloat r) b = (num_val b = Some r)"
| "py_eq (JStr s) b = (b = JStr s)"
| "py_eq (JArr xs) b =
     (case b of JArr ys \<Rightarrow> list_all2 (\<lambda>f y. f y) (map py_eq xs) ys | _ \<Rightarrow> False)"
| "py_eq (JObj kv) b =
     (case b of
        JObj kv' \<Rightarrow>
          length kv = length kv' \<and>
          list_all (\<lambda>(k, f). case map_of kv' k of None \<Rightarrow> False | Some w \<Rightarrow> f w)
            (map (map_prod id py_eq) kv)
      | _ \<Rightarrow> False)"

text \<open>\<^verbatim>\<open>key in q\<close> for a string \<open>key\<close>: a key of a dict, a substring of a string, an
  element of a list; a \<^verbatim>\<open>TypeError\<close> on anything else.\<close>

fun py_contains :: "string \<Rightarrow> json \<Rightarrow> py_exc + bool" where
  "py_contains key (JObj kv) = Inr (key \<in> fst ` set kv)"
| "py_contains key (JStr s) = Inr (sublist key s)"
| "py_contains key (JArr xs) = Inr (list_ex (\<lambda>x. py_eq x (JStr key)) xs)"
| "py_contains key v =
     Inl (OtherException (''argument of type '' @ quoted (type_name v) @ '' is not iterable''))"

text \<open>\<^verbatim>\<open>q[key]\<close> for a string \<open>key\<close>; \<^verbatim>\<open>str\<close> of a \<^verbatim>\<open>KeyError\<close> is the key's
  \<^verbatim>\<open>repr\<close>.\<close>

fun py_subscript :: "string \<Rightarrow> json \<Rightarrow> py_exc + json" where
  "py_subscript key (JObj kv) =
     (case map_of kv key of Some v \<Rightarrow> Inr v | None \<Rightarrow> Inl (OtherException (quoted key)))"
| "py_subscript key (JStr s) = Inl (OtherException ''string indices must be integers'')"
| "py_subscript key (JArr xs) =
     Inl (OtherException ''list indices must be integers or slices, not str'')"
| "py_subscript key v =
     Inl (OtherException (quoted (type_name v) @ '' object is not subscriptable''))"

text \<open>\<^verbatim>\<open>q[key] = v\<close>: the dict keeps the key's place, or gets the key at its end.\<close>

fun py_setitem :: "string \<Rightarrow> json \<Rightarrow> json \<Rightarrow> py_exc + json" where
  "py_setitem key v (JObj kv) = Inr (JObj (AList.update key v kv))"
| "py_setitem key v (JArr xs) =
     Inl (OtherException ''list indices must be integers or slices, not str'')"
| "py_setitem key v q =
     Inl (OtherException (quoted (type_name q) @ '' object does not support item assignment''))"

text \<open>\<^verbatim>\<open>d.get(key, default)\<close>; only a dict has the method.\<close>

fun py_get :: "string \<Rightarrow> json \<Rightarrow> json \<Rightarrow> py_exc + json" where
  "py_get key dflt (JObj kv) = Inr (case map_of kv key of None \<Rightarrow> dflt | Some v \<Rightarrow> v)"
| "py_get key dflt v =
     Inl (OtherException
       (quoted (type_name v) @ '' object has no attribute '' @ quoted ''get''))"

text \<open>The items \<^verbatim>\<open>for q in v\<close> runs through: the elements of a list, the characters of
  a string, the keys of a dict.\<close>

fun py_iter :: "json \<Rightarrow> py_exc + json list" where
  "py_iter (JArr xs) = Inr xs"
| "py_iter (JStr s) = Inr (map (\<lambda>c. JStr [c]) s)"
| "py_iter (JObj kv) = Inr (map (\<lambda>p. JStr (fst p)) kv)"
| "py_iter v = Inl (OtherException (quoted (type_name v) @ '' object is not iterable''))"

subsection \<open>\<^verbatim>\<open>random.shuffle\<close>\<close>

text \<open>
  The library's loop:
  \<^verbatim>\<open>for i in reversed(range(1, len(x))): j = randbelow(i + 1); x[i], x[j] = x[j], x[i]\<close>.
  The generator is a sequence \<open>rnd\<close> of raw draws and the number \<open>k\<close> of draws used so
  far; \<^verbatim>\<open>randbelow(n)\<close> is the next draw reduced below \<open>n\<close>.
\<close>

definition randbelow :: "(nat \<Rightarrow> nat) \<Rightarrow> nat \<Rightarrow> nat \<Rightarrow> nat" where
  "randbelow rnd k n = rnd k mod n"

fun shuffle_loop :: "(nat \<Rightarrow> nat) \<Rightarrow> nat \<Rightarrow> nat \<Rightarrow> 'a list \<Rightarrow> 'a list \<times> nat" where
  "shuffle_loop rnd k 0 xs = (xs, k)"
| "shuffle_loop rnd k (Suc i) xs =
     (let j = randbelow rnd k (Suc i + 1)
      in shuffle_loop rnd (Suc k) i (xs[Suc i := xs ! j, j := xs ! Suc i]))"

text \<open>\<^verbatim>\<open>random.shuffle(x)\<close> on a value: a list is permuted; a string or a dict with at
  most one element passes (the loop body never runs); a longer string fails at the
  assignment, a longer dict at \<^verbatim>\<open>x[j]\<close>; anything else has no \<^verbatim>\<open>len\<close>.\<close>

fun py_shuffle :: "(nat \<Rightarrow> nat) \<Rightarrow> nat \<Rightarrow> json \<Rightarrow> py_exc + json \<times> nat" where
  "py_shuffle rnd k (JArr xs) =
     (case shuffle_loop rnd k (length xs - 1) xs of (ys, k') \<Rightarrow> Inr (JArr ys, k'))"
| "py_shuffle rnd k (JStr s) =
     (if length s \<le> 1 then Inr (JStr s, k)
      else Inl (OtherException
        (quoted ''str'' @ '' object does not support item assignment'')))"
| "py_shuffle rnd k (JObj kv) =
     (if length kv \<le> 1 then Inr (JObj kv, k)
      else Inl (OtherException (show_nat (randbelow rnd k (length kv)))))"
| "py_shuffle rnd k v =
     Inl (OtherException (''object of type '' @ quoted (type_name v) @ '' has no len()''))"

subsection \<open>\<^verbatim>\<open>generate_quiz\<close>: parsing and validation (lines 88 to 122)\<close>

text \<open>How a piece of the function body ends: an exception, which the handlers at the end
  of the function turn into a message; a \<^verbatim>\<open>return None, message\<close>; or a value to go on
  with.\<close>

datatype 'a flow = Raised py_exc | Returned string | Continue 'a

text \<open>What \<^verbatim>\<open>json.loads(s)\<close> does: it returns the value, or raises \<^verbatim>\<open>JSONDecodeError\<close>, or
  raises another exception (\<^verbatim>\<open>RecursionError\<close> on a text nested too deeply), of which the
  string is \<^verbatim>\<open>str(e)\<close>.\<close>

datatype decoded = Decoded json | JSONDecodeError | DecodeRaised string

text \<open>Lines 95 to 106. Line 97 catches \<^verbatim>\<open>JSONDecodeError\<close> only: another exception of the
  first call leaves for the handlers at the end of the function. The bare \<^verbatim>\<open>except\<close> of
  line 103 catches whatever the second call raises.\<close>

definition load_quiz_data :: "(string \<Rightarrow> decoded) \<Rightarrow> string \<Rightarrow> json flow" where
  "load_quiz_data loads result =
     (case loads result of
        Decoded quiz_data \<Rightarrow> Continue quiz_data
      | DecodeRaised e \<Rightarrow> Raised (OtherException e)
      | JSONDecodeError \<Rightarrow>
          (case search_braces result of
             Some m \<Rightarrow>
               (case loads m of
                  Decoded quiz_data \<Rightarrow> Continue quiz_data
                | _ \<Rightarrow> Returned ''Failed to parse quiz response.'')
           | None \<Rightarrow> Returned ''Failed to parse quiz response.''))"

text \<open>Line 115: \<^verbatim>\<open>"options" in q and "answer" in q and "question" in q\<close>, left to
  right, stopping at the first that is false.\<close>

definition has_keys :: "json \<Rightarrow> py_exc + bool" where
  "has_keys q =
     (case py_contains ''options'' q of
        Inl e \<Rightarrow> Inl e
      | Inr False \<Rightarrow> Inr False
      | Inr True \<Rightarrow>
          (case py_contains ''answer'' q of
             Inl e \<Rightarrow> Inl e
           | Inr False \<Rightarrow> Inr False
           | Inr True \<Rightarrow> py_contains ''question'' q))"

text \<open>Lines 115 to 120, the body of the loop for one \<open>q\<close>. The list \<^verbatim>\<open>q["options"]\<close> is
  shuffled in place, so afterwards \<open>q\<close> holds the shuffled list under that key.\<close>

definition shuffle_question :: "(nat \<Rightarrow> nat) \<Rightarrow> nat \<Rightarrow> json \<Rightarrow> (json \<times> nat) flow" where
  "shuffle_question rnd k q =
     (case has_keys q of
        Inl e \<Rightarrow> Raised e
      | Inr False \<Rightarrow> Returned ''Invalid question format received.''
      | Inr True \<Rightarrow>
          (case py_subscript ''answer'' q of
             Inl e \<Rightarrow> Raised e
           | Inr correct \<Rightarrow>
               (case py_subscript ''options'' q of
                  Inl e \<Rightarrow> Raised e
                | Inr opts \<Rightarrow>
                    (case py_shuffle rnd k opts of
                       Inl e \<Rightarrow> Raised e
                     | Inr (opts', k') \<Rightarrow>
                         (case py_setitem ''options'' opts' q of
                            Inl e \<Rightarrow> Raised e
                          | Inr q1 \<Rightarrow>
                              (case py_setitem ''answer'' correct q1 of
                                 Inl e \<Rightarrow> Raised e
                               | Inr q2 \<Rightarrow> Continue (q2, k')))))))"

text \<open>Lines 114 to 120, the loop.\<close>

fun shuffle_questions :: "(nat \<Rightarrow> nat) \<Rightarrow> nat \<Rightarrow> json list \<Rightarrow> (json list \<times> nat) flow" where
  "shuffle_questions rnd k [] = Continue ([], k)"
| "shuffle_questions rnd k (q # qs) =
     (case shuffle_question rnd k q of
        Raised e \<Rightarrow> Raised e
      | Returned m \<Rightarrow> Returned m
      | Continue (q', k') \<Rightarrow>
          (case shuffle_questions rnd k' qs of
             Raised e \<Rightarrow> Raised e
           | Returned m \<Rightarrow> Returned m
           | Continue (qs', k'') \<Rightarrow> Continue (q' # qs', k'')))"

text \<open>Lines 108 to 122. The value returned is \<^verbatim>\<open>quiz_questions\<close> itself: a list holds
  the questions the loop has changed; the items of a string or of a dict are temporary
  objects, and the value is returned as it was.\<close>

definition check_and_shuffle :: "(nat \<Rightarrow> nat) \<Rightarrow> json \<Rightarrow> json flow" where
  "check_and_shuffle rnd quiz_data =
     (case py_get ''quiz'' (JArr []) quiz_data of
        Inl e \<Rightarrow> Raised e
      | Inr quiz_questions \<Rightarrow>
          if \<not> truthy quiz_questions
          then Returned ''No questions were generated. Try with more text.''
          else
            (case py_iter quiz_questions of
               Inl e \<Rightarrow> Raised e
             | Inr items \<Rightarrow>
                 (case shuffle_questions rnd 0 items of
                    Raised e \<Rightarrow> Raised e
                  | Returned m \<Rightarrow> Returned m
                  | Continue (items', k) \<Rightarrow>
                      Continue (case quiz_questions of JArr _ \<Rightarrow> JArr items' | v \<Rightarrow> v))))"

text \<open>Lines 91 to 122: the response text to the quiz, or to the way the function ends.\<close>

definition parse_response :: "(string \<Rightarrow> decoded) \<Rightarrow> (nat \<Rightarrow> nat) \<Rightarrow> string \<Rightarrow> json flow" where
  "parse_response loads rnd result =
     (case load_quiz_data loads (clean_response result) of
        Raised e \<Rightarrow> Raised e
      | Returned m \<Rightarrow> Returned m
      | Continue quiz_data \<Rightarrow> check_and_shuffle rnd quiz_data)"

subsection \<open>\<^verbatim>\<open>generate_quiz\<close> (lines 31 to 129)\<close>

text \<open>The call \<^verbatim>\<open>requests.post(URL, headers=headers, json=data, timeout=30)\<close>. The
  prompt is a fixed text around \<^verbatim>\<open>num_questions\<close> and \<^verbatim>\<open>text\<close>, so the request
  carries these two.\<close>

record request =
  url :: string
  authorization :: string
  model :: string
  prompt_num_questions :: int
  prompt_text :: string
  max_tokens :: nat
  timeout :: nat

text \<open>What the function reads of the response: the status code, and the result of
  evaluating \<^verbatim>\<open>response.json()["choices"][0]["message"]["content"]\<close>, an exception when
  the body is not of that shape (or when the content is no string, which line 91 raises
  on).\<close>

record response =
  status_code :: int
  content :: "py_exc + string"

definition URL :: string where
  "URL = ''https://api.openai.com/v1/chat/completions''"

text \<open>The three \<^verbatim>\<open>except\<close> clauses, lines 124 to 129.\<close>

fun handle_exception :: "py_exc \<Rightarrow> json option \<times> string option" where
  "handle_exception Timeout = (None, Some ''Request timed out. Please try again.'')"
| "handle_exception (RequestException e) = (None, Some (''Network error: '' @ e))"
| "handle_exception (OtherException e) = (None, Some (''Unexpected error: '' @ e))"

text \<open>The function returns the pair \<^verbatim>\<open>(result, error)\<close>; the model returns with it the
  list of the requests sent. \<open>API_KEY\<close> is the module's global.\<close>

definition generate_quiz ::
  "string \<Rightarrow> (request \<Rightarrow> py_exc + response) \<Rightarrow> (string \<Rightarrow> decoded) \<Rightarrow> (nat \<Rightarrow> nat) \<Rightarrow>
   string \<Rightarrow> int \<Rightarrow> (json option \<times> string option) \<times> request list" where
  "generate_quiz API_KEY post loads rnd text n =
     (if text = [] \<or> strip text = []
      then ((None, Some ''Please provide text to generate questions from.''), [])
      else if API_KEY = []
      then ((None, Some ''API key is required.''), [])
      else
        let req = \<lparr> url = URL, authorization = ''Bearer '' @ API_KEY,
                    model = ''gpt-4o-mini'', prompt_num_questions = n, prompt_text = text,
                    max_tokens = 2000, timeout = 30 \<rparr>
        in
          (case post req of
             Inl e \<Rightarrow> (handle_exception e, [req])
           | Inr resp \<Rightarrow>
               if status_code resp \<noteq> 200
               then
                 (if status_code resp = 401
                  then ((None, Some ''Invalid API key. Please check your OpenAI API key.''), [req])
                  else if status_code resp = 429
                  then ((None, Some ''Rate limit exceeded. Please try again in a moment.''), [req])
                  else ((None, Some (''API Error '' @ show_int (status_code resp))), [req]))
               else
                 (case content resp of
                    Inl e \<Rightarrow> (handle_exception e, [req])
                  | Inr result \<Rightarrow>
                      (case parse_response loads rnd result of
                         Raised e \<Rightarrow> (handle_exception e, [req])
                       | Returned m \<Rightarrow> ((None, Some m), [req])
                       | Continue quiz_questions \<Rightarrow> ((Some quiz_questions, None), [req])))))"

subsection \<open>Session state (lines 134 to 152)\<close>

datatype page = MainPage | QuizPage | HistoryPage

text \<open>One entry of \<^verbatim>\<open>quiz_history\<close>. The score is the float \<^verbatim>\<open>(score / total) * 100\<close>,
  here the real number that float is.\<close>

record history_entry =
  date :: string
  score :: real
  correct :: nat
  total :: nat

text \<open>\<^verbatim>\<open>st.session_state\<close>. \<^verbatim>\<open>quiz\<close> is always a Python list: it starts as \<^verbatim>\<open>[]\<close>, and
  is assigned \<^verbatim>\<open>[]\<close> or a quiz that \<^verbatim>\<open>generate_quiz\<close> returned. \<^verbatim>\<open>user_answers\<close> is a
  dict from question indices to the chosen option or \<^verbatim>\<open>None\<close> (\<open>JNull\<close>): an association
  list in insertion order, each key once.\<close>

record session_state =
  page :: page
  paragraphs :: "string list"
  quiz :: "json list"
  user_answers :: "(nat \<times> json) list"
  quiz_ready :: bool
  show_results :: bool
  quiz_history :: "history_entry list"
  current_paragraph :: string
  dark_mode :: bool
  num_questions :: int

definition init_session_state :: session_state where
  "init_session_state =
     \<lparr> page = MainPage, paragraphs = [], quiz = [], user_answers = [], quiz_ready = False,
       show_results = False, quiz_history = [], current_paragraph = [], dark_mode = True,
       num_questions = 5 \<rparr>"

text \<open>\<^verbatim>\<open>user_answers.get(i)\<close>.\<close>

definition answers_get :: "(nat \<times> json) list \<Rightarrow> nat \<Rightarrow> json" where
  "answers_get ua i = (case map_of ua i of None \<Rightarrow> JNull | Some v \<Rightarrow> v)"

subsection \<open>Sidebar and main page handlers\<close>

text \<open>Lines 399 to 402.\<close>

definition nav_home :: "session_state \<Rightarrow> session_state" where
  "nav_home s = s\<lparr>page := MainPage, show_results := False\<rparr>"

text \<open>Lines 448 to 454; \<open>user_input\<close> is the text area's value.\<close>

definition add_para :: "string \<Rightarrow> session_state \<Rightarrow> session_state" where
  "add_para user_input s =
     (if user_input \<noteq> [] \<and> strip user_input \<noteq> []
      then s\<lparr>paragraphs := paragraphs s @ [strip user_input]\<rparr>
      else s)"

text \<open>Lines 458 to 463.\<close>

definition clear_all :: "session_state \<Rightarrow> session_state" where
  "clear_all s = s\<lparr>paragraphs := [], quiz := [], quiz_ready := False\<rparr>"

text \<open>Lines 476 to 491, the button of paragraph \<open>i\<close>, which is there for the paragraphs
  that exist. An error message that is not empty leaves the state as it is; otherwise a
  quiz that is not empty is stored. The result of
  \<^verbatim>\<open>generate_quiz\<close> is a list whenever there is one (\<open>generate_quiz_result_is_list\<close>).\<close>

definition gen_quiz ::
  "string \<Rightarrow> (request \<Rightarrow> py_exc + response) \<Rightarrow> (string \<Rightarrow> decoded) \<Rightarrow> (nat \<Rightarrow> nat) \<Rightarrow>
   nat \<Rightarrow> session_state \<Rightarrow> session_state" where
  "gen_quiz API_KEY post loads rnd i s =
     (if \<not> i < length (paragraphs s) then s
      else
        (case fst (generate_quiz API_KEY post loads rnd (paragraphs s ! i) (num_questions s)) of
           (result, error) \<Rightarrow>
             if error \<noteq> None \<and> error \<noteq> Some []
             then s
             else
               (case result of
                  Some (JArr qs) \<Rightarrow>
                    if qs \<noteq> []
                    then s\<lparr>quiz := qs, quiz_ready := True, user_answers := [],
                           show_results := False, page := QuizPage\<rparr>
                    else s
                | _ \<Rightarrow> s)))"

subsection \<open>Quiz page (lines 498 to 635)\<close>

text \<open>Line 511: the keys of \<^verbatim>\<open>user_answers\<close> whose value is not \<^verbatim>\<open>None\<close>.\<close>

definition answered :: "session_state \<Rightarrow> nat" where
  "answered s =
     length (filter (\<lambda>k. answers_get (user_answers s) k \<noteq> JNull) (map fst (user_answers s)))"

text \<open>Line 521: the button is disabled while \<^verbatim>\<open>answered < len(quiz)\<close>.\<close>

definition submit_disabled :: "session_state \<Rightarrow> bool" where
  "submit_disabled s = (answered s < length (quiz s))"

text \<open>Lines 499 to 523: a click on the submit button. Without a quiz the page draws no
  submit button (line 499), and a disabled button takes no click: \<open>None\<close> in both
  cases.\<close>

definition submit_btn :: "session_state \<Rightarrow> session_state option" where
  "submit_btn s =
     (if quiz s = [] \<or> submit_disabled s then None else Some (s\<lparr>show_results := True\<rparr>))"

text \<open>Lines 525 to 528.\<close>

definition reset_btn :: "session_state \<Rightarrow> session_state" where
  "reset_btn s = s\<lparr>user_answers := [], show_results := False\<rparr>"

text \<open>Lines 530 to 533.\<close>

definition quiz_home_sidebar :: "session_state \<Rightarrow> session_state" where
  "quiz_home_sidebar s = s\<lparr>page := MainPage, show_results := False\<rparr>"

text \<open>Lines 501 to 503, the button shown when there is no quiz.\<close>

definition quiz_home_btn :: "session_state \<Rightarrow> session_state" where
  "quiz_home_btn s = s\<lparr>page := MainPage\<rparr>"

text \<open>Lines 625 to 628.\<close>

definition try_again :: "session_state \<Rightarrow> session_state" where
  "try_again s = s\<lparr>user_answers := [], show_results := False\<rparr>"

text \<open>Lines 631 to 635.\<close>

definition results_home :: "session_state \<Rightarrow> session_state" where
  "results_home s = s\<lparr>page := MainPage, quiz_ready := False, show_results := False\<rparr>"

text \<open>Lines 540 to 556, the questions while answering. \<open>radio i\<close> is what the radio
  widget of question \<open>i\<close> returns in this run: the option chosen, or \<^verbatim>\<open>None\<close>. The widget
  and the index it is preset to are the library's business. An exception ends the run
  with the answers stored so far.\<close>

fun answering_loop ::
  "(nat \<Rightarrow> json) \<Rightarrow> nat \<Rightarrow> json list \<Rightarrow> (nat \<times> json) list \<Rightarrow> (nat \<times> json) list \<times> py_exc option" where
  "answering_loop radio i [] ua = (ua, None)"
| "answering_loop radio i (q # qs) ua =
     (case py_subscript ''question'' q of
        Inl e \<Rightarrow> (ua, Some e)
      | Inr _ \<Rightarrow>
          (case py_subscript ''options'' q of
             Inl e \<Rightarrow> (ua, Some e)
           | Inr _ \<Rightarrow> answering_loop radio (Suc i) qs (AList.update i (radio i) ua)))"

text \<open>Lines 562 to 589, the grading loop: \<open>i\<close> is the index of the head of the list and
  \<open>sc\<close> the score so far.\<close>

fun grade :: "(nat \<times> json) list \<Rightarrow> nat \<Rightarrow> json list \<Rightarrow> nat \<Rightarrow> py_exc + nat" where
  "grade ua i [] sc = Inr sc"
| "grade ua i (q # qs) sc =
     (let user_ans = answers_get ua i in
      case py_subscript ''answer'' q of
        Inl e \<Rightarrow> Inl e
      | Inr correct_ans \<Rightarrow>
          (let sc' = (if py_eq user_ans correct_ans then sc + 1 else sc) in
           case py_subscript ''question'' q of
             Inl e \<Rightarrow> Inl e
           | Inr _ \<Rightarrow> grade ua (Suc i) qs sc'))"

text \<open>Line 592, \<^verbatim>\<open>(score / total) * 100\<close>, is computed in binary floating point: the
  quotient of the two integers is rounded to the nearest float, and so is its product
  with 100. A float has 53 significant bits; a real number between \<open>2 ^ e\<close> and
  \<open>2 ^ (e + 1)\<close> is rounded to the nearest multiple of \<open>2 ^ (e - 52)\<close>, to the even one of
  two that are equally near. The range of the exponent is not modelled: the numbers here
  lie between \<open>1 / total\<close> and 100.\<close>

definition pow2 :: "int \<Rightarrow> real" where
  "pow2 e = (if 0 \<le> e then 2 ^ nat e else 1 / 2 ^ nat (- e))"

definition round_half_even :: "real \<Rightarrow> int" where
  "round_half_even y =
     (let f = \<lfloor>y\<rfloor> in
      if y - of_int f < 1 / 2 then f
      else if 1 / 2 < y - of_int f then f + 1
      else if even f then f else f + 1)"

definition exponent :: "real \<Rightarrow> int" where
  "exponent x = \<lfloor>log 2 \<bar>x\<bar>\<rfloor>"

definition fl64 :: "real \<Rightarrow> real" where
  "fl64 x =
     (if x = 0 then 0
      else let q = pow2 (exponent x - 52) in of_int (round_half_even (x / q)) * q)"

definition percentage :: "nat \<Rightarrow> nat \<Rightarrow> real" where
  "percentage sc tot = fl64 (fl64 (real sc / real tot) * 100)"

text \<open>Lines 594 to 602.\<close>

definition message :: "real \<Rightarrow> string" where
  "message pct =
     (if pct \<ge> 80 then ''Excellent work!''
      else if pct \<ge> 60 then ''Good job!''
      else ''Keep studying!'')"

text \<open>Line 614: \<^verbatim>\<open>any(h.get("date") == datetime.now().strftime("%Y-%m-%d %H:%M") for h in
  quiz_history)\<close>. The clock is read once for each entry looked at, and the search stops
  at the first entry that matches. \<open>clock j\<close> is the formatted result of the \<open>j\<close>-th reading
  and \<open>k\<close> the number of readings made so far.\<close>

fun any_same_date :: "(nat \<Rightarrow> string) \<Rightarrow> nat \<Rightarrow> history_entry list \<Rightarrow> bool \<times> nat" where
  "any_same_date clock k [] = (False, k)"
| "any_same_date clock k (h # hs) =
     (if date h = clock k then (True, Suc k) else any_same_date clock (Suc k) hs)"

text \<open>Lines 614 to 620: the entry is appended with one more reading of the clock.\<close>

definition record_history ::
  "(nat \<Rightarrow> string) \<Rightarrow> nat \<Rightarrow> real \<Rightarrow> nat \<Rightarrow> nat \<Rightarrow> history_entry list \<Rightarrow> history_entry list \<times> nat" where
  "record_history clock k pct sc tot hist =
     (case any_same_date clock k hist of
        (True, k') \<Rightarrow> (hist, k')
      | (False, k') \<Rightarrow>
          (hist @ [\<lparr> date = clock k', score = pct, correct = sc, total = tot \<rparr>], Suc k'))"

text \<open>What the score card of lines 604 to 611 shows.\<close>

record score_card =
  card_message :: string
  card_score :: nat
  card_total :: nat
  card_percentage :: real

text \<open>Lines 562 to 611: the grading loop, the percentage and the message.\<close>

definition score_card :: "session_state \<Rightarrow> py_exc + score_card" where
  "score_card s =
     (case grade (user_answers s) 0 (quiz s) 0 of
        Inl e \<Rightarrow> Inl e
      | Inr sc \<Rightarrow>
          let tot = length (quiz s) in
          if tot = 0 then Inl (OtherException ''division by zero'')
          else
            let pct = percentage sc tot in
            Inr \<lparr> card_message = message pct, card_score = sc, card_total = tot,
                  card_percentage = pct \<rparr>)"

text \<open>Lines 559 to 620, the results view up to its buttons: the score card, then the
  entry of the history.\<close>

definition results_view ::
  "(nat \<Rightarrow> string) \<Rightarrow> nat \<Rightarrow> session_state \<Rightarrow> session_state \<times> py_exc option" where
  "results_view clock k s =
     (case score_card s of
        Inl e \<Rightarrow> (s, Some e)
      | Inr c \<Rightarrow>
          (s\<lparr>quiz_history :=
               fst (record_history clock k (card_percentage c) (card_score c) (card_total c)
                      (quiz_history s))\<rparr>,
           None))"

text \<open>The buttons of the quiz page; at most one is clicked in a run of the script.\<close>

datatype quiz_button =
    Click_quiz_home_btn
  | Click_submit_btn
  | Click_reset_btn
  | Click_quiz_home_sidebar
  | Click_try_again
  | Click_results_home

text \<open>Lines 498 to 635, one run of the quiz page. A handler ends the run
  (\<^verbatim>\<open>st.rerun()\<close>); the two buttons under the results are reached after the results have
  been drawn and the history written.\<close>

definition quiz_page ::
  "(nat \<Rightarrow> string) \<Rightarrow> nat \<Rightarrow> (nat \<Rightarrow> json) \<Rightarrow> quiz_button option \<Rightarrow> session_state \<Rightarrow>
   session_state \<times> py_exc option" where
  "quiz_page clock k radio click s =
     (if quiz s = []
      then (if click = Some Click_quiz_home_btn then (quiz_home_btn s, None) else (s, None))
      else if click = Some Click_submit_btn \<and> \<not> submit_disabled s
      then (s\<lparr>show_results := True\<rparr>, None)
      else if click = Some Click_reset_btn then (reset_btn s, None)
      else if click = Some Click_quiz_home_sidebar then (quiz_home_sidebar s, None)
      else if \<not> show_results s
      then
        (case answering_loop radio 0 (quiz s) (user_answers s) of
           (ua, e) \<Rightarrow> (s\<lparr>user_answers := ua\<rparr>, e))
      else
        (case results_view clock k s of
           (s1, Some e) \<Rightarrow> (s1, Some e)
         | (s1, None) \<Rightarrow>
             if click = Some Click_try_again then (try_again s1, None)
             else if click = Some Click_results_home then (results_home s1, None)
             else (s1, None)))"

subsection \<open>Fenced responses\<close>

text \<open>A JSON text whose value is an object: whitespace apart, it begins with an opening
  brace and ends with a closing one.\<close>

definition json_object_text :: "string \<Rightarrow> bool" where
  "json_object_text P =
     (let t = strip P in t \<noteq> [] \<and> hd t = CHR ''{'' \<and> last t = CHR ''}'')"

text \<open>The payload \<open>P\<close> between a \<^verbatim>\<open>```json\<close> fence and a \<^verbatim>\<open>```\<close> fence: \<open>w1\<close> and \<open>w2\<close>
  separate the fences from the payload, \<open>t\<close> follows the closing fence.\<close>

definition fenced :: "string \<Rightarrow> string \<Rightarrow> string \<Rightarrow> string \<Rightarrow> string" where
  "fenced w1 w2 t P = fence_open @ w1 @ P @ w2 @ fence_close @ t"

section \<open>Properties\<close>

subsection \<open>Rounding to the nearest float\<close>

lemma pow2_powr: "pow2 e = 2 powr (of_int e)"
  by (auto simp: pow2_def powr_realpow[symmetric] powr_minus field_simps)

lemma pow2_pos: "0 < pow2 e"
  by (simp add: pow2_powr)

lemma exponent_eqI:
  assumes "pow2 e \<le> \<bar>x\<bar>" "\<bar>x\<bar> < pow2 (e + 1)"
  shows "exponent x = e"
proof -
  have x: "0 < \<bar>x\<bar>" using assms(1) pow2_pos[of e] by linarith
  show ?thesis
    unfolding exponent_def
    using assms floor_log_eq_powr_iff[of "\<bar>x\<bar>" 2 e] x
    by (simp add: pow2_powr)
qed

lemma exponent_bounds:
  assumes "x \<noteq> 0"
  shows "pow2 (exponent x) \<le> \<bar>x\<bar>" "\<bar>x\<bar> < pow2 (exponent x + 1)"
  using assms floor_log_eq_powr_iff[of "\<bar>x\<bar>" 2 "exponent x"]
  by (simp_all add: pow2_powr exponent_def)

lemma round_half_even_near: "\<bar>of_int (round_half_even y) - y\<bar> \<le> 1 / 2"
  unfolding round_half_even_def Let_def by (auto; linarith)

lemma fl64_eval:
  assumes "pow2 e \<le> \<bar>x\<bar>" "\<bar>x\<bar> < pow2 (e + 1)"
  shows "fl64 x = of_int (round_half_even (x / pow2 (e - 52))) * pow2 (e - 52)"
proof -
  have "x \<noteq> 0" using assms(1) pow2_pos[of e] by auto
  then show ?thesis by (simp add: fl64_def exponent_eqI[OF assms] Let_def)
qed


lemma pow2_shift: "pow2 (e - 52) = pow2 e / 2 ^ 52"
proof -
  have "(2::real) powr (of_int e - 52) = 2 powr (of_int e) / 2 powr 52"
    by (rule powr_diff)
  then show ?thesis by (simp add: pow2_powr)
qed

lemma fl64_error: "\<bar>fl64 x - x\<bar> \<le> \<bar>x\<bar> / 2 ^ 53"
proof (cases "x = 0")
  case True
  then show ?thesis by (simp add: fl64_def)
next
  case False
  let ?q = "pow2 (exponent x - 52)"
  have q: "0 < ?q" by (rule pow2_pos)
  have f: "fl64 x = of_int (round_half_even (x / ?q)) * ?q"
    using False by (simp add: fl64_def Let_def)
  have "fl64 x - x = (of_int (round_half_even (x / ?q)) - x / ?q) * ?q"
    using q by (simp add: f field_simps)
  then have "\<bar>fl64 x - x\<bar> = \<bar>of_int (round_half_even (x / ?q)) - x / ?q\<bar> * ?q"
    using q by (simp add: abs_mult)
  also have "\<dots> \<le> (1 / 2) * ?q"
    using round_half_even_near[of "x / ?q"] q by (intro mult_right_mono) simp_all
  also have "\<dots> = pow2 (exponent x) / 2 ^ 53"
    by (simp add: pow2_shift)
  also have "\<dots> \<le> \<bar>x\<bar> / 2 ^ 53"
    using exponent_bounds(1)[OF False] by (simp add: divide_right_mono)
  finally show ?thesis .
qed

lemma abs_split_100:
  fixes p b a :: real
  shows "\<bar>p - 100 * a\<bar> \<le> \<bar>p - b * 100\<bar> + 100 * \<bar>b - a\<bar>"
proof -
  have 1: "p - 100 * a = (p - b * 100) + 100 * (b - a)"
    by (simp add: algebra_simps)
  have 2: "\<bar>(p - b * 100) + 100 * (b - a)\<bar> \<le> \<bar>p - b * 100\<bar> + \<bar>100 * (b - a)\<bar>"
    by (rule abs_triangle_ineq)
  have 3: "\<bar>100 * (b - a)\<bar> = 100 * \<bar>b - a\<bar>"
    by (simp only: abs_mult abs_numeral)
  show ?thesis unfolding 1 using 2 unfolding 3 .
qed

lemma percentage_error:
  "\<bar>percentage n N - 100 * real n / real N\<bar> \<le> (100 * real n / real N) / 2 ^ 51"
proof -
  let ?a = "real n / real N"
  let ?u = "1 / 2 ^ 53 :: real"
  have a: "0 \<le> ?a" by simp
  have e1: "\<bar>fl64 ?a - ?a\<bar> \<le> ?a * ?u"
    using fl64_error[of ?a] a by simp
  then have b: "\<bar>fl64 ?a\<bar> \<le> ?a * (1 + ?u)"
    using a by (simp add: abs_le_iff algebra_simps)
  have e2: "\<bar>fl64 (fl64 ?a * 100) - fl64 ?a * 100\<bar> \<le> \<bar>fl64 ?a\<bar> * 100 * ?u"
    using fl64_error[of "fl64 ?a * 100"] by (simp add: abs_mult)
  also have "\<dots> \<le> ?a * (1 + ?u) * 100 * ?u"
    using b by (intro mult_right_mono) simp_all
  finally have e3: "\<bar>fl64 (fl64 ?a * 100) - fl64 ?a * 100\<bar> \<le> ?a * (1 + ?u) * 100 * ?u" .
  have "\<bar>percentage n N - 100 * ?a\<bar>
          \<le> \<bar>fl64 (fl64 ?a * 100) - fl64 ?a * 100\<bar> + 100 * \<bar>fl64 ?a - ?a\<bar>"
    unfolding percentage_def by (rule abs_split_100)
  also have "\<dots> \<le> ?a * (1 + ?u) * 100 * ?u + 100 * (?a * ?u)"
    by (intro add_mono mult_left_mono e3 e1) simp
  also have "\<dots> = 100 * ?a * (?u * (2 + ?u))"
    by (simp add: algebra_simps)
  also have "\<dots> \<le> 100 * ?a * (1 / 2 ^ 51)"
    using a by (intro mult_left_mono) simp_all
  finally show ?thesis by simp
qed

lemma fl64_1: "fl64 1 = 1"
  by (subst fl64_eval[of 0]) (simp_all add: pow2_def round_half_even_def)

lemma fl64_100: "fl64 100 = 100"
  by (subst fl64_eval[of 6]) (simp_all add: pow2_def round_half_even_def)

lemma fl64_half: "fl64 (1 / 2) = 1 / 2"
  by (subst fl64_eval[of "-1"]) (simp_all add: pow2_def round_half_even_def)

lemma fl64_50: "fl64 50 = 50"
  by (subst fl64_eval[of 5]) (simp_all add: pow2_def round_half_even_def)

lemma percentage_1_1: "percentage 1 1 = 100"
  by (simp add: percentage_def fl64_1 fl64_100)

lemma percentage_1_2: "percentage 1 2 = 50" "percentage (Suc 0) (Suc (Suc 0)) = 50"
  by (simp_all add: percentage_def fl64_half fl64_50)

lemma fl64_7_100: "fl64 (7 / 100) = 5044031582654956 / 2 ^ 56"
  by (subst fl64_eval[of "-4"]) (simp_all add: pow2_def round_half_even_def)

lemma fl64_7_100_times: "fl64 (5044031582654956 / 2 ^ 56 * 100) = 7 + 1 / 2 ^ 50"
  by (subst fl64_eval[of 2]) (simp_all add: pow2_def round_half_even_def)

lemma percentage_7_100: "percentage 7 100 = 7 + 1 / 2 ^ 50"
  by (simp only: percentage_def of_nat_numeral fl64_7_100 fl64_7_100_times)


lemma round_half_even_above:
  assumes "of_int m - 1 / 2 < y"
  shows "m \<le> round_half_even y"
proof -
  from round_half_even_near[of y] have "- (of_int (round_half_even y) - y) \<le> 1 / 2"
    by (simp only: abs_le_iff)
  then have "y - 1 / 2 \<le> of_int (round_half_even y)" by linarith
  with assms have "of_int m - 1 < (of_int (round_half_even y) :: real)" by linarith
  then have "of_int (m - 1) < (of_int (round_half_even y) :: real)" by simp
  then have "m - 1 < round_half_even y" by (simp only: of_int_less_iff)
  then show ?thesis by simp
qed

lemma fl64_above:
  assumes "pow2 e \<le> x" "x < pow2 (e + 1)"
    and "of_int m - 1 / 2 < x / pow2 (e - 52)"
  shows "of_int m * pow2 (e - 52) \<le> fl64 x"
proof -
  have x: "0 < x" using assms(1) pow2_pos[of e] by linarith
  then have "fl64 x = of_int (round_half_even (x / pow2 (e - 52))) * pow2 (e - 52)"
    using assms(1,2) by (intro fl64_eval) simp_all
  moreover have "m \<le> round_half_even (x / pow2 (e - 52))"
    by (rule round_half_even_above[OF assms(3)])
  ultimately show ?thesis
    using pow2_pos[of "e - 52"] by (simp add: mult_right_mono)
qed

lemma fl64_near:
  assumes "0 \<le> x"
  shows "x - x / 2 ^ 53 \<le> fl64 x" and "fl64 x \<le> x + x / 2 ^ 53"
proof -
  define d where "d = x / 2 ^ 53"
  have "\<bar>fl64 x - x\<bar> \<le> d"
    using fl64_error[of x] assms by (simp add: d_def)
  then have "fl64 x - x \<le> d" "- (fl64 x - x) \<le> d"
    by (simp_all only: abs_le_iff)
  then show "x - x / 2 ^ 53 \<le> fl64 x" and "fl64 x \<le> x + x / 2 ^ 53"
    unfolding d_def by linarith+
qed

lemma fl64_upper:
  assumes "0 \<le> x"
  shows "fl64 x \<le> x * (1 + 1 / 2 ^ 53)"
  using fl64_near(2)[OF assms] by (simp add: algebra_simps)

lemma fl64_nonneg:
  assumes "0 \<le> x"
  shows "0 \<le> fl64 x"
proof -
  have "0 \<le> x - x / 2 ^ 53" using assms by (simp add: field_simps)
  with fl64_near(1)[OF assms] show ?thesis by linarith
qed

lemma percentage_below:
  assumes "real n / real N \<le> b" and "100 * b * (1 + 1 / 2 ^ 53) * (1 + 1 / 2 ^ 53) < t"
  shows "percentage n N < t"
proof -
  let ?a = "real n / real N"
  have a: "0 \<le> ?a" by simp
  have f: "0 \<le> fl64 ?a" by (rule fl64_nonneg[OF a])
  have "fl64 ?a \<le> ?a * (1 + 1 / 2 ^ 53)" by (rule fl64_upper[OF a])
  also have "\<dots> \<le> b * (1 + 1 / 2 ^ 53)"
    using assms(1) by (intro mult_right_mono) simp_all
  finally have 1: "fl64 ?a \<le> b * (1 + 1 / 2 ^ 53)" .
  have "percentage n N \<le> fl64 ?a * 100 * (1 + 1 / 2 ^ 53)"
    unfolding percentage_def using f by (intro fl64_upper) simp
  also have "\<dots> \<le> (b * (1 + 1 / 2 ^ 53)) * 100 * (1 + 1 / 2 ^ 53)"
    using 1 by (intro mult_right_mono) simp_all
  also have "\<dots> = 100 * b * (1 + 1 / 2 ^ 53) * (1 + 1 / 2 ^ 53)" by simp
  finally show ?thesis using assms(2) by linarith
qed

lemma quotient_below:
  assumes "5 * n < c * N" and "N < 2 ^ 40" and "0 < N"
  shows "real n / real N \<le> real c / 5 - 1 / (5 * 2 ^ 40)"
proof -
  from assms(1) have "5 * n + 1 \<le> c * N" by simp
  then have "real (5 * n + 1) \<le> real (c * N)" by (simp only: of_nat_le_iff)
  then have 1: "5 * real n + 1 \<le> real c * real N" by simp
  from assms(2) have "real N \<le> 2 ^ 40"
    by (metis less_imp_le of_nat_le_iff of_nat_numeral of_nat_power)
  then have 2: "real N / 2 ^ 40 \<le> 1" by simp
  from 1 2 have "5 * real n \<le> real c * real N - real N / 2 ^ 40" by linarith
  then have "real n \<le> (real c / 5 - 1 / (5 * 2 ^ 40)) * real N"
    by (simp add: field_simps)
  then show ?thesis using assms(3) by (simp add: pos_divide_le_eq)
qed

lemma percentage_below_80:
  assumes "5 * n < 4 * N" and "N < 2 ^ 40" and "0 < N"
  shows "percentage n N < 80"
proof -
  have "real n / real N \<le> real 4 / 5 - 1 / (5 * 2 ^ 40)"
    by (rule quotient_below[OF assms])
  then show ?thesis
    by (rule percentage_below) simp
qed

lemma percentage_below_60:
  assumes "5 * n < 3 * N" and "N < 2 ^ 40" and "0 < N"
  shows "percentage n N < 60"
proof -
  have "real n / real N \<le> real 3 / 5 - 1 / (5 * 2 ^ 40)"
    by (rule quotient_below[OF assms])
  then show ?thesis
    by (rule percentage_below) simp
qed


lemma quotient_above:
  assumes "c * N \<le> 5 * n" and "n < N"
  shows "real c / 5 \<le> real n / real N" and "1 / 2 \<le> real n / real N \<or> c < 3"
    and "real n / real N < 1"
proof -
  from assms(2) have N: "0 < real N" by simp
  from assms(1) have "real (c * N) \<le> real (5 * n)" by (simp only: of_nat_le_iff)
  then have "real c * real N \<le> 5 * real n" by simp
  then show 1: "real c / 5 \<le> real n / real N"
    using N by (simp add: field_simps)
  show "real n / real N < 1" using assms(2) N by simp
  show "1 / 2 \<le> real n / real N \<or> c < 3"
  proof (cases "c < 3")
    case False
    then have "3 \<le> real c" by simp
    with 1 show ?thesis by simp
  qed simp
qed

lemma fl64_quotient_above:
  assumes "1 / 2 \<le> a" "a < 1" and "of_int m - 1 / 2 < a * 2 ^ 53"
  shows "of_int m / 2 ^ 53 \<le> fl64 a"
  using fl64_above[of "-1" a m] assms by (simp add: pow2_def)

lemma fl64_product_below_128:
  assumes "0 \<le> a" "a < 1"
  shows "fl64 a * 100 < 128"
proof -
  have "fl64 a \<le> a * (1 + 1 / 2 ^ 53)" by (rule fl64_upper[OF assms(1)])
  also have "\<dots> \<le> 1 * (1 + 1 / 2 ^ 53)"
    using assms(2) by (intro mult_right_mono) simp_all
  finally show ?thesis by simp
qed

lemma percentage_equal: "0 < N \<Longrightarrow> percentage N N = 100"
  by (simp add: percentage_def fl64_1 fl64_100)

lemma percentage_at_least_80:
  assumes "4 * N \<le> 5 * n" and "n \<le> N" and "0 < N"
  shows "80 \<le> percentage n N"
proof (cases "n = N")
  case True
  with assms(3) show ?thesis by (simp add: percentage_equal)
next
  case False
  with assms(2) have lt: "n < N" by simp
  let ?a = "real n / real N"
  from quotient_above[OF assms(1) lt] have a: "4 / 5 \<le> ?a" "?a < 1" by simp_all
  have "of_int 7205759403792794 / 2 ^ 53 \<le> fl64 ?a"
    using a by (intro fl64_quotient_above) simp_all
  then have lo: "7205759403792794 / 2 ^ 53 * 100 \<le> fl64 ?a * 100" by simp
  have hi: "fl64 ?a * 100 < 128"
    using a by (intro fl64_product_below_128) simp_all
  have "of_int 5629499534213120 * pow2 (6 - 52) \<le> fl64 (fl64 ?a * 100)"
    using lo hi by (intro fl64_above) (simp_all add: pow2_def)
  then show ?thesis by (simp add: percentage_def pow2_def)
qed

lemma percentage_at_least_60:
  assumes "3 * N \<le> 5 * n" and "n \<le> N" and "0 < N"
  shows "60 \<le> percentage n N"
proof (cases "n = N")
  case True
  with assms(3) show ?thesis by (simp add: percentage_equal)
next
  case False
  with assms(2) have lt: "n < N" by simp
  let ?a = "real n / real N"
  from quotient_above[OF assms(1) lt] have a: "3 / 5 \<le> ?a" "?a < 1" by simp_all
  have "of_int 5404319552844595 / 2 ^ 53 \<le> fl64 ?a"
    using a by (intro fl64_quotient_above) simp_all
  then have lo: "5404319552844595 / 2 ^ 53 * 100 \<le> fl64 ?a * 100" by simp
  have hi: "fl64 ?a * 100 < 128"
    using a by (intro fl64_product_below_128) simp_all
  show ?thesis
  proof (cases "fl64 ?a * 100 < 64")
    case True
    have "of_int 8444249301319680 * pow2 (5 - 52) \<le> fl64 (fl64 ?a * 100)"
      using lo True by (intro fl64_above) (simp_all add: pow2_def)
    then show ?thesis by (simp add: percentage_def pow2_def)
  next
    case False
    have "of_int 4503599627370496 * pow2 (6 - 52) \<le> fl64 (fl64 ?a * 100)"
      using False hi by (intro fl64_above) (simp_all add: pow2_def)
    then show ?thesis by (simp add: percentage_def pow2_def)
  qed
qed

lemma percentage_bands:
  assumes "n \<le> N" and "0 < N" and "N < 2 ^ 40"
  shows "80 \<le> percentage n N \<longleftrightarrow> 4 * N \<le> 5 * n"
    and "60 \<le> percentage n N \<longleftrightarrow> 3 * N \<le> 5 * n"
proof -
  show "80 \<le> percentage n N \<longleftrightarrow> 4 * N \<le> 5 * n"
    using percentage_at_least_80[OF _ assms(1,2)] percentage_below_80[OF _ assms(3,2), of n]
    by (cases "4 * N \<le> 5 * n") (simp_all add: not_le)
  show "60 \<le> percentage n N \<longleftrightarrow> 3 * N \<le> 5 * n"
    using percentage_at_least_60[OF _ assms(1,2)] percentage_below_60[OF _ assms(3,2), of n]
    by (cases "3 * N \<le> 5 * n") (simp_all add: not_le)
qed

subsection \<open>Cleaning the response text\<close>

lemma not_isspace_backquote: "\<not> isspace (CHR 0x60)"
  by (simp add: isspace_def)

lemma not_isspace_braces: "\<not> isspace (CHR ''{'')" "\<not> isspace (CHR ''}'')"
  by (simp_all add: isspace_def)

lemma isspace_linefeed: "isspace (CHR 0x0A)"
  by (simp add: isspace_def)

lemma fence_close_chars: "fence_close = [CHR 0x60, CHR 0x60, CHR 0x60]"
  by (simp add: fence_close_def)

lemma strip_decomp:
  "\<exists>ws1 ws2. s = ws1 @ strip s @ ws2 \<and> (\<forall>c\<in>set ws1. isspace c) \<and> (\<forall>c\<in>set ws2. isspace c)"
proof -
  let ?t = "dropWhile isspace s"
  have s: "s = takeWhile isspace s @ ?t" by simp
  have "rev (takeWhile isspace (rev ?t) @ dropWhile isspace (rev ?t)) = ?t"
    by (simp only: takeWhile_dropWhile_id rev_rev_ident)
  then have "rev (dropWhile isspace (rev ?t)) @ rev (takeWhile isspace (rev ?t)) = ?t"
    by (simp only: rev_append)
  then have t: "?t = strip s @ rev (takeWhile isspace (rev ?t))"
    by (simp only: strip_def)
  have a: "\<forall>c\<in>set (takeWhile isspace s). isspace c"
    by (auto dest: set_takeWhileD)
  have b: "\<forall>c\<in>set (rev (takeWhile isspace (rev ?t))). isspace c"
    by (auto dest: set_takeWhileD)
  from s t have "s = takeWhile isspace s @ strip s @ rev (takeWhile isspace (rev ?t))"
    by metis
  with a b show ?thesis by blast
qed

lemma strip_core:
  assumes "\<forall>c\<in>set ws1. isspace c" "\<forall>c\<in>set ws2. isspace c"
    and "core \<noteq> []" "\<not> isspace (hd core)" "\<not> isspace (last core)"
  shows "strip (ws1 @ core @ ws2) = core"
proof -
  from assms(3,4) have l: "dropWhile isspace (ws1 @ core @ ws2) = core @ ws2"
    using assms(1) by (cases core) (simp_all add: dropWhile_append)
  from assms(3,5) have r: "dropWhile isspace (rev ws2 @ rev core) = rev core"
    using assms(2) by (cases core rule: rev_cases) (simp_all add: dropWhile_append)
  show ?thesis by (simp add: strip_def l r)
qed

lemma match_close_fence_chars:
  assumes "match_close_fence s = Some r"
  shows "\<forall>c\<in>set s. isspace c \<or> c = CHR 0x60"
proof -
  let ?d = "dropWhile isspace s"
  let ?n = "length fence_close"
  from assms have t: "take ?n ?d = fence_close" and a: "at_dollar (drop ?n ?d)"
    by (auto simp only: match_close_fence_def Let_def split: if_splits)
  have "?d = take ?n ?d @ drop ?n ?d" by simp
  with t have d: "?d = fence_close @ drop ?n ?d" by simp
  from a have "\<forall>c\<in>set (drop ?n ?d). isspace c"
    by (auto simp: at_dollar_def isspace_linefeed)
  with d have "\<forall>c\<in>set ?d. isspace c \<or> c = CHR 0x60"
    by (metis Un_iff fence_close_chars set_ConsD set_append empty_iff empty_set)
  moreover have "\<forall>c\<in>set (takeWhile isspace s). isspace c"
    by (auto dest: set_takeWhileD)
  moreover have "set s = set (takeWhile isspace s) \<union> set ?d"
    by (metis set_append takeWhile_dropWhile_id)
  ultimately show ?thesis by blast
qed

lemma strip_close_fence_past:
  assumes "\<not> isspace c" "c \<noteq> CHR 0x60"
  shows "strip_close_fence (u @ c # t) = u @ c # strip_close_fence t"
proof (induction u)
  case Nil
  have "match_close_fence (c # t) = None"
    using match_close_fence_chars[of "c # t"] assms by (cases "match_close_fence (c # t)") auto
  then show ?case by simp
next
  case (Cons a u)
  have "match_close_fence (a # u @ c # t) = None"
    using match_close_fence_chars[of "a # u @ c # t"] assms
    by (cases "match_close_fence (a # u @ c # t)") auto
  with Cons show ?case by simp
qed

lemma strip_close_fence_spaces:
  "\<forall>c\<in>set ws. isspace c \<Longrightarrow> strip_close_fence ws = ws"
proof (induction ws)
  case Nil
  then show ?case by simp
next
  case (Cons a ws)
  then have "dropWhile isspace (a # ws) = []" by simp
  then have "match_close_fence (a # ws) = None"
    unfolding match_close_fence_def Let_def by (simp add: fence_close_def)
  with Cons show ?case by simp
qed

lemma strip_close_fence_fence:
  assumes "\<forall>c\<in>set ws. isspace c" and "at_dollar t"
  shows "strip_close_fence (ws @ fence_close @ t) = t"
proof -
  have "dropWhile isspace (ws @ fence_close @ t) = fence_close @ t"
    using assms(1) by (simp add: dropWhile_append fence_close_chars not_isspace_backquote)
  then have m: "match_close_fence (ws @ fence_close @ t) = Some t"
    unfolding match_close_fence_def Let_def using assms(2) by simp
  obtain a as where "ws @ fence_close @ t = a # as"
    by (cases "ws @ fence_close @ t") (simp_all add: fence_close_chars)
  with m show ?thesis by simp
qed

lemma at_dollar_spaces: "at_dollar t \<Longrightarrow> \<forall>c\<in>set t. isspace c"
  by (auto simp: at_dollar_def isspace_linefeed)

lemma strip_open_fence_other:
  "s \<noteq> [] \<Longrightarrow> hd s \<noteq> CHR 0x60 \<Longrightarrow> strip_open_fence s = s"
  by (cases s) (auto simp: strip_open_fence_def fence_open_def)

lemma strip_close_fence_core:
  assumes "core \<noteq> []" "\<not> isspace (last core)" "last core \<noteq> CHR 0x60"
    and "\<forall>c\<in>set ws. isspace c"
  shows "strip_close_fence (u @ core @ ws) = u @ core @ ws"
proof -
  from assms(1) obtain v c where core: "core = v @ [c]"
    by (cases core rule: rev_cases) auto
  with assms have c: "\<not> isspace c" "c \<noteq> CHR 0x60" by simp_all
  have "strip_close_fence ((u @ v) @ c # ws) = (u @ v) @ c # strip_close_fence ws"
    by (rule strip_close_fence_past[OF c])
  with assms(4) show ?thesis by (simp add: core strip_close_fence_spaces)
qed

lemma clean_plain:
  assumes "\<forall>c\<in>set ws1. isspace c" "\<forall>c\<in>set ws2. isspace c"
    and "core \<noteq> []" "hd core = CHR ''{''" "last core = CHR ''}''"
  shows "clean_response (ws1 @ core @ ws2) = core"
proof -
  have h: "ws1 @ core @ ws2 \<noteq> []" "hd (ws1 @ core @ ws2) \<noteq> CHR 0x60"
    using assms by (cases ws1; auto simp: not_isspace_backquote)+
  have o: "strip_open_fence (ws1 @ core @ ws2) = ws1 @ core @ ws2"
    by (rule strip_open_fence_other[OF h])
  have c: "strip_close_fence (ws1 @ core @ ws2) = ws1 @ core @ ws2"
    using assms by (intro strip_close_fence_core) (simp_all add: not_isspace_braces)
  show ?thesis
    unfolding clean_response_def o c
    using assms by (intro strip_core) (simp_all add: not_isspace_braces)
qed

lemma clean_fenced:
  assumes "\<forall>c\<in>set ws1. isspace c" "\<forall>c\<in>set ws2. isspace c"
    and "core \<noteq> []" "hd core = CHR ''{''" "last core = CHR ''}''"
    and "\<forall>c\<in>set w1. isspace c" "\<forall>c\<in>set w2. isspace c" "at_dollar t"
  shows "clean_response (fenced w1 w2 t (ws1 @ core @ ws2)) = core"
proof -
  from assms(3) obtain v c where core: "core = v @ [c]"
    by (cases core rule: rev_cases) auto
  with assms(5) have c: "\<not> isspace c" "c \<noteq> CHR 0x60"
    by (simp_all add: not_isspace_braces)
  have "dropWhile isspace ((w1 @ ws1) @ core @ ws2 @ w2 @ fence_close @ t)
        = core @ ws2 @ w2 @ fence_close @ t"
    using assms(1,3,4,6) by (cases core) (simp_all add: dropWhile_append not_isspace_braces)
  then have o: "strip_open_fence (fenced w1 w2 t (ws1 @ core @ ws2))
        = core @ ws2 @ w2 @ fence_close @ t"
    by (simp add: strip_open_fence_def fenced_def)
  have "strip_close_fence (v @ c # ((ws2 @ w2) @ fence_close @ t))
        = v @ c # strip_close_fence ((ws2 @ w2) @ fence_close @ t)"
    by (rule strip_close_fence_past[OF c])
  also have "strip_close_fence ((ws2 @ w2) @ fence_close @ t) = t"
    using assms(2,7,8) by (intro strip_close_fence_fence) auto
  finally have cl: "strip_close_fence (core @ ws2 @ w2 @ fence_close @ t) = core @ t"
    by (simp add: core)
  have "strip ([] @ core @ t) = core"
    using assms(3,4,5,8) by (intro strip_core) (simp_all add: not_isspace_braces at_dollar_spaces)
  then show ?thesis
    by (simp add: clean_response_def o cl)
qed

lemma object_text_decomp:
  assumes "json_object_text P"
  obtains ws1 ws2 where "P = ws1 @ strip P @ ws2"
    "\<forall>c\<in>set ws1. isspace c" "\<forall>c\<in>set ws2. isspace c"
    "strip P \<noteq> []" "hd (strip P) = CHR ''{''" "last (strip P) = CHR ''}''"
  using assms strip_decomp[of P] unfolding json_object_text_def Let_def by blast

text \<open>
  Claim C5. For a payload that is the text of a JSON object, the response wrapped in
  code fences (\<^verbatim>\<open>```json\<close> before, \<^verbatim>\<open>```\<close> after, whitespace between fences and payload,
  at most a line feed after the closing fence) is cleaned to the same text as the payload
  alone, which is the payload without its surrounding whitespace: nothing of it is lost.
  Cleaning the cleaned text again changes nothing, and the parser gives the same result
  for both, whatever \<^verbatim>\<open>json.loads\<close> does.
\<close>

theorem fenced_payload_parses_alike:
  assumes "json_object_text P"
    and "\<forall>c\<in>set w1. isspace c" and "\<forall>c\<in>set w2. isspace c" and "at_dollar t"
  shows "clean_response (fenced w1 w2 t P) = clean_response P
       \<and> clean_response P = strip P
       \<and> clean_response (clean_response (fenced w1 w2 t P)) = clean_response (fenced w1 w2 t P)
       \<and> parse_response loads rnd (fenced w1 w2 t P) = parse_response loads rnd P"
proof -
  from assms(1) obtain ws1 ws2 where d: "P = ws1 @ strip P @ ws2"
    and ws: "\<forall>c\<in>set ws1. isspace c" "\<forall>c\<in>set ws2. isspace c"
    and core: "strip P \<noteq> []" "hd (strip P) = CHR ''{''" "last (strip P) = CHR ''}''"
    by (rule object_text_decomp)
  have "clean_response (ws1 @ strip P @ ws2) = strip P"
    by (rule clean_plain[OF ws core])
  with d have a: "clean_response P = strip P" by simp
  have "clean_response (fenced w1 w2 t (ws1 @ strip P @ ws2)) = strip P"
    by (rule clean_fenced[OF ws core assms(2,3,4)])
  with d have b: "clean_response (fenced w1 w2 t P) = strip P" by simp
  have "clean_response ([] @ strip P @ []) = strip P"
    by (rule clean_plain[OF _ _ core]) simp_all
  then have c: "clean_response (strip P) = strip P" by simp
  show ?thesis by (simp add: a b c parse_response_def)
qed

theorem fenced_payload_parses_alike_witness:
  "json_object_text ''{}'' \<and> at_dollar [CHR 0x0A]
   \<and> clean_response (fenced [CHR 0x0A] [CHR 0x0A] [CHR 0x0A] ''{}'') = ''{}''
   \<and> clean_response ''{}'' = ''{}''"
proof -
  have j: "json_object_text ''{}''"
    by (simp add: json_object_text_def strip_def isspace_def)
  have d: "at_dollar [CHR 0x0A]" by (simp add: at_dollar_def)
  have w: "\<forall>c\<in>set [CHR 0x0A]. isspace c" by (simp add: isspace_def)
  have s: "strip ''{}'' = ''{}''" by (simp add: strip_def isspace_def)
  from fenced_payload_parses_alike[OF j w w d] j d s show ?thesis by simp
qed

subsection \<open>Session handlers\<close>

text \<open>
  Claim C9. From any session state, the handler of the "Clear All" button of the main page
  leaves an empty paragraph list, an empty quiz and the quiz-ready flag false: the quiz
  page then has no quiz to show, and the sidebar no way to it.
\<close>

theorem clear_all_empties:
  "paragraphs (clear_all s) = [] \<and> quiz (clear_all s) = [] \<and> quiz_ready (clear_all s) = False"
  by (simp add: clear_all_def)

lemma answered_card:
  assumes "distinct (map fst ua)" and "set (map fst ua) \<subseteq> {0..<N}"
  shows "length (filter (\<lambda>k. answers_get ua k \<noteq> JNull) (map fst ua))
         = card {i. i < N \<and> answers_get ua i \<noteq> JNull}"
proof -
  let ?P = "\<lambda>k. answers_get ua k \<noteq> JNull"
  have "distinct (filter ?P (map fst ua))" using assms(1) by (rule distinct_filter)
  then have "length (filter ?P (map fst ua)) = card (set (filter ?P (map fst ua)))"
    by (rule distinct_card[symmetric])
  moreover have "set (filter ?P (map fst ua)) = {i. i < N \<and> ?P i}"
  proof (intro set_eqI iffI)
    fix i assume "i \<in> set (filter ?P (map fst ua))"
    with assms(2) show "i \<in> {i. i < N \<and> ?P i}" by auto
  next
    fix i assume i: "i \<in> {i. i < N \<and> ?P i}"
    then have "map_of ua i \<noteq> None"
      by (auto simp: answers_get_def split: option.splits)
    then have "i \<in> fst ` set ua" by (simp add: map_of_eq_None_iff)
    with i show "i \<in> set (filter ?P (map fst ua))" by simp
  qed
  ultimately show ?thesis by (simp only:)
qed

lemma card_below: "card {i. i < N \<and> Q i} \<le> (N::nat)"
proof -
  have "card {i. i < N \<and> Q i} \<le> card {0..<N}"
    by (rule card_mono) auto
  then show ?thesis by simp
qed

text \<open>
  Claim C3. For a quiz of \<open>N\<close> questions and answers stored under indices below \<open>N\<close>,
  the count of line 511 is the number of indices with an entry that is not \<^verbatim>\<open>None\<close>. The
  submit button takes a click exactly when that count is \<open>N\<close>, and a run of the quiz page
  with that click then ends with the result flag set and nothing else changed. While the
  count is below \<open>N\<close> the button is disabled and such a run leaves the result flag as it
  was: from the answering view the page shows the results after the run exactly when the
  count is \<open>N\<close>. (Without a quiz, line 499, the page draws no submit button at all.)
\<close>

theorem submit_enabled_iff_all_answered:
  assumes "distinct (map fst (user_answers s))"
    and "set (map fst (user_answers s)) \<subseteq> {0..<length (quiz s)}"
  shows "answered s = card {i. i < length (quiz s) \<and> answers_get (user_answers s) i \<noteq> JNull}
       \<and> (quiz s \<noteq> [] \<longrightarrow>
            (submit_btn s \<noteq> None \<longleftrightarrow> answered s = length (quiz s)))
       \<and> (quiz s \<noteq> [] \<and> answered s = length (quiz s) \<longrightarrow>
            submit_btn s = Some (s\<lparr>show_results := True\<rparr>)
            \<and> quiz_page clock k radio (Some Click_submit_btn) s
                = (s\<lparr>show_results := True\<rparr>, None))
       \<and> (answered s < length (quiz s) \<longrightarrow>
            submit_btn s = None
            \<and> show_results (fst (quiz_page clock k radio (Some Click_submit_btn) s))
                = show_results s)
       \<and> (quiz s \<noteq> [] \<and> \<not> show_results s \<longrightarrow>
            (show_results (fst (quiz_page clock k radio (Some Click_submit_btn) s))
              \<longleftrightarrow> answered s = length (quiz s)))
       \<and> (quiz s = [] \<longrightarrow>
            submit_btn s = None
            \<and> quiz_page clock k radio (Some Click_submit_btn) s = (s, None))"
proof -
  have a: "answered s = card {i. i < length (quiz s) \<and> answers_get (user_answers s) i \<noteq> JNull}"
    unfolding answered_def by (rule answered_card[OF assms])
  then have le: "answered s \<le> length (quiz s)" by (simp add: card_below)
  have b: "quiz s \<noteq> [] \<longrightarrow> (submit_btn s \<noteq> None \<longleftrightarrow> answered s = length (quiz s))"
    using le by (auto simp: submit_btn_def submit_disabled_def)
  have c: "quiz s \<noteq> [] \<and> answered s = length (quiz s) \<longrightarrow>
            submit_btn s = Some (s\<lparr>show_results := True\<rparr>)
            \<and> quiz_page clock k radio (Some Click_submit_btn) s
                = (s\<lparr>show_results := True\<rparr>, None)"
    by (simp add: submit_btn_def submit_disabled_def quiz_page_def)
  have d: "answered s < length (quiz s) \<longrightarrow> submit_btn s = None"
    by (simp add: submit_btn_def submit_disabled_def)
  have e: "answered s < length (quiz s) \<longrightarrow>
      show_results (fst (quiz_page clock k radio (Some Click_submit_btn) s)) = show_results s"
    by (auto simp: quiz_page_def submit_disabled_def results_view_def
        split: prod.splits option.splits sum.splits)
  have f: "quiz s \<noteq> [] \<and> \<not> show_results s \<longrightarrow>
            (show_results (fst (quiz_page clock k radio (Some Click_submit_btn) s))
              \<longleftrightarrow> answered s = length (quiz s))"
  proof (cases "answered s = length (quiz s)")
    case True
    with c show ?thesis by auto
  next
    case False
    with le have "answered s < length (quiz s)" by simp
    with e False show ?thesis by simp
  qed
  have g: "quiz s = [] \<longrightarrow>
            submit_btn s = None
            \<and> quiz_page clock k radio (Some Click_submit_btn) s = (s, None)"
    by (simp add: submit_btn_def quiz_page_def)
  from a b c d e f g show ?thesis by blast
qed

theorem submit_enabled_iff_all_answered_witness:
  "quiz_page (\<lambda>j. ''2024-05-01 12:00'') 0 (\<lambda>i. JNull) (Some Click_submit_btn)
     (init_session_state\<lparr>page := QuizPage,
       quiz := [JObj [(''question'', JStr ''Q1''), (''options'', JArr [JStr ''a'', JStr ''b'']), (''answer'', JStr ''a'')],
                JObj [(''question'', JStr ''Q2''), (''options'', JArr [JStr ''a'', JStr ''b'']), (''answer'', JStr ''b'')]],
       user_answers := [(0, JStr ''a''), (1, JStr ''a'')]\<rparr>)
   = (init_session_state\<lparr>page := QuizPage,
       quiz := [JObj [(''question'', JStr ''Q1''), (''options'', JArr [JStr ''a'', JStr ''b'']), (''answer'', JStr ''a'')],
                JObj [(''question'', JStr ''Q2''), (''options'', JArr [JStr ''a'', JStr ''b'']), (''answer'', JStr ''b'')]],
       user_answers := [(0, JStr ''a''), (1, JStr ''a'')], show_results := True\<rparr>, None)
   \<and> submit_btn (init_session_state\<lparr>page := QuizPage,
       quiz := [JObj [(''question'', JStr ''Q1''), (''options'', JArr [JStr ''a'', JStr ''b'']), (''answer'', JStr ''a'')],
                JObj [(''question'', JStr ''Q2''), (''options'', JArr [JStr ''a'', JStr ''b'']), (''answer'', JStr ''b'')]],
       user_answers := [(0, JStr ''a''), (1, JNull)]\<rparr>) = None
   \<and> show_results (fst (quiz_page (\<lambda>j. ''2024-05-01 12:00'') 0 (\<lambda>i. JNull) (Some Click_submit_btn)
       (init_session_state\<lparr>page := QuizPage,
         quiz := [JObj [(''question'', JStr ''Q1''), (''options'', JArr [JStr ''a'', JStr ''b'']), (''answer'', JStr ''a'')],
                  JObj [(''question'', JStr ''Q2''), (''options'', JArr [JStr ''a'', JStr ''b'']), (''answer'', JStr ''b'')]],
         user_answers := [(0, JStr ''a''), (1, JNull)]\<rparr>))) = False"
  (is "quiz_page ?c 0 ?r _ ?s = (?s', None) \<and> submit_btn ?t = None \<and> _")
proof -
  have s1: "distinct (map fst (user_answers ?s))"
    and s2: "set (map fst (user_answers ?s)) \<subseteq> {0..<length (quiz ?s)}"
    and s3: "quiz ?s \<noteq> [] \<and> answered ?s = length (quiz ?s)"
    by (simp_all add: answered_def answers_get_def)
  have t1: "distinct (map fst (user_answers ?t))"
    and t2: "set (map fst (user_answers ?t)) \<subseteq> {0..<length (quiz ?t)}"
    and t3: "answered ?t < length (quiz ?t)"
    and t4: "show_results ?t = False"
    by (simp_all add: answered_def answers_get_def init_session_state_def)
  from submit_enabled_iff_all_answered[OF s1 s2, of ?c 0 ?r] s3
  have "quiz_page ?c 0 ?r (Some Click_submit_btn) ?s = (?s\<lparr>show_results := True\<rparr>, None)"
    by blast
  then have 1: "quiz_page ?c 0 ?r (Some Click_submit_btn) ?s = (?s', None)" by simp
  from submit_enabled_iff_all_answered[OF t1 t2, of ?c 0 ?r] t3 t4
  have 2: "submit_btn ?t = None"
    and 3: "show_results (fst (quiz_page ?c 0 ?r (Some Click_submit_btn) ?t)) = False"
    by simp_all
  from 1 2 3 show ?thesis by blast
qed

text \<open>
  Claim C4, as amended. Both home buttons of the quiz page go to the main page and clear
  the result flag. Neither clears the quiz. The button under the results also clears the
  quiz-ready flag, which the button beside the quiz leaves as it is. Paragraphs, history,
  answers and all other fields are unchanged by either handler. In a run of the quiz page
  the button beside the quiz is handled before anything is drawn; the button under the
  results is handled after the results view has been drawn, history entry included.
\<close>

theorem home_handlers_frame:
  "page (quiz_home_sidebar s) = MainPage \<and> show_results (quiz_home_sidebar s) = False
   \<and> quiz (quiz_home_sidebar s) = quiz s \<and> quiz_ready (quiz_home_sidebar s) = quiz_ready s
   \<and> paragraphs (quiz_home_sidebar s) = paragraphs s
   \<and> quiz_history (quiz_home_sidebar s) = quiz_history s
   \<and> user_answers (quiz_home_sidebar s) = user_answers s
   \<and> current_paragraph (quiz_home_sidebar s) = current_paragraph s
   \<and> dark_mode (quiz_home_sidebar s) = dark_mode s
   \<and> num_questions (quiz_home_sidebar s) = num_questions s
   \<and> page (results_home s) = MainPage \<and> show_results (results_home s) = False
   \<and> quiz (results_home s) = quiz s \<and> quiz_ready (results_home s) = False
   \<and> paragraphs (results_home s) = paragraphs s
   \<and> quiz_history (results_home s) = quiz_history s
   \<and> user_answers (results_home s) = user_answers s
   \<and> current_paragraph (results_home s) = current_paragraph s
   \<and> dark_mode (results_home s) = dark_mode s
   \<and> num_questions (results_home s) = num_questions s
   \<and> (quiz s \<noteq> [] \<longrightarrow>
        quiz_page clock k radio (Some Click_quiz_home_sidebar) s = (quiz_home_sidebar s, None))
   \<and> (quiz s \<noteq> [] \<and> show_results s \<and> snd (results_view clock k s) = None \<longrightarrow>
        quiz_page clock k radio (Some Click_results_home) s
          = (results_home (fst (results_view clock k s)), None))"
  by (auto simp: quiz_home_sidebar_def results_home_def quiz_page_def split: prod.splits)

theorem home_handlers_frame_witness:
  "quiz_page (\<lambda>j. ''2024-05-01 12:00'') 0 (\<lambda>i. JNull) (Some Click_results_home)
     (init_session_state\<lparr>page := QuizPage,
        quiz := [JObj [(''question'', JStr ''Q''), (''options'', JArr [JStr ''a) A'', JStr ''b) B'']),
                       (''answer'', JStr ''a) A'')]],
        user_answers := [(0, JStr ''a) A'')], quiz_ready := True, show_results := True\<rparr>)
   = (init_session_state\<lparr>page := MainPage,
        quiz := [JObj [(''question'', JStr ''Q''), (''options'', JArr [JStr ''a) A'', JStr ''b) B'']),
                       (''answer'', JStr ''a) A'')]],
        user_answers := [(0, JStr ''a) A'')], quiz_ready := False, show_results := False,
        quiz_history := [\<lparr> date = ''2024-05-01 12:00'', score = 100, correct = 1, total = 1 \<rparr>]\<rparr>,
      None)"
  (is "quiz_page ?c 0 ?r _ ?s = _")
proof -
  have v: "results_view ?c 0 ?s =
      (?s\<lparr>quiz_history := [\<lparr> date = ''2024-05-01 12:00'', score = 100, correct = 1, total = 1 \<rparr>]\<rparr>,
       None)"
    by (simp add: results_view_def score_card_def init_session_state_def answers_get_def
        percentage_equal record_history_def Let_def)
  have h: "quiz ?s \<noteq> [] \<and> show_results ?s \<and> snd (results_view ?c 0 ?s) = None"
    by (simp add: v)
  from home_handlers_frame[of ?s ?c 0 ?r] h
  have "quiz_page ?c 0 ?r (Some Click_results_home) ?s
          = (results_home (fst (results_view ?c 0 ?s)), None)" by blast
  then show ?thesis
    unfolding v by (simp add: results_home_def init_session_state_def)
qed

text \<open>
  Claim C4 as stated says that the home button under the results clears the active quiz.
  It does not: in a state showing the results of a quiz of one question, the quiz is still
  there after the handler has run.
\<close>

theorem results_home_keeps_quiz:
  "quiz (results_home (init_session_state\<lparr>page := QuizPage,
      quiz := [JObj [(''question'', JStr ''Q''), (''options'', JArr [JStr ''a) A'', JStr ''b) B'']),
                     (''answer'', JStr ''a) A'')]],
      user_answers := [(0, JStr ''a) A'')], quiz_ready := True, show_results := True\<rparr>))
   \<noteq> []"
  by (simp add: results_home_def init_session_state_def)

lemma strip_blank: "\<forall>c\<in>set ws. isspace c \<Longrightarrow> strip ws = []"
  by (auto simp: strip_def dest: set_dropWhileD)

text \<open>
  Claim C8. For every question count, \<^verbatim>\<open>generate_quiz\<close> on a text that is empty or all
  whitespace returns no quiz and the message asking for text, sends no request, and the
  handler of the "Generate Quiz" button of such a paragraph leaves the session state as it
  was.
\<close>

theorem generate_quiz_blank_text:
  assumes "text = [] \<or> (\<forall>c\<in>set text. isspace c)"
  shows "generate_quiz API_KEY post loads rnd text n
           = ((None, Some ''Please provide text to generate questions from.''), [])
       \<and> (paragraphs s ! i = text \<longrightarrow> gen_quiz API_KEY post loads rnd i s = s)"
proof -
  from assms have "text = [] \<or> strip text = []"
    using strip_blank by blast
  then have g: "generate_quiz API_KEY post loads rnd text m
           = ((None, Some ''Please provide text to generate questions from.''), [])" for m
    by (auto simp: generate_quiz_def)
  show ?thesis by (auto simp: gen_quiz_def g)
qed

theorem generate_quiz_blank_text_witness:
  "generate_quiz ''sk-key'' (\<lambda>r. Inl Timeout) (\<lambda>x. JSONDecodeError) (\<lambda>j. 0) [CHR '' '', CHR 0x0A] 5
           = ((None, Some ''Please provide text to generate questions from.''), [])
   \<and> gen_quiz ''sk-key'' (\<lambda>r. Inl Timeout) (\<lambda>x. JSONDecodeError) (\<lambda>j. 0) 0
         (init_session_state\<lparr>paragraphs := [[CHR '' '', CHR 0x0A]]\<rparr>)
       = init_session_state\<lparr>paragraphs := [[CHR '' '', CHR 0x0A]]\<rparr>"
proof -
  have h: "[CHR '' '', CHR 0x0A] = [] \<or> (\<forall>c\<in>set [CHR '' '', CHR 0x0A]. isspace c)"
    by (simp add: isspace_def)
  have p: "paragraphs (init_session_state\<lparr>paragraphs := [[CHR '' '', CHR 0x0A]]\<rparr>) ! 0
       = [CHR '' '', CHR 0x0A]" by simp
  from generate_quiz_blank_text[OF h, of "''sk-key''" "\<lambda>r. Inl Timeout" "\<lambda>x. JSONDecodeError" "\<lambda>j. 0" 5
      "init_session_state\<lparr>paragraphs := [[CHR '' '', CHR 0x0A]]\<rparr>" 0] p
  show ?thesis by blast
qed

subsection \<open>History\<close>

lemma any_same_date_steady:
  assumes "\<forall>j\<ge>k. clock j = now"
  shows "fst (any_same_date clock k hist) = (now \<in> date ` set hist)
       \<and> k \<le> snd (any_same_date clock k hist)"
  using assms
proof (induction hist arbitrary: k)
  case Nil
  then show ?case by simp
next
  case (Cons h hist)
  from Cons.prems have "\<forall>j\<ge>Suc k. clock j = now" by simp
  from Cons.IH[OF this] Cons.prems show ?case by auto
qed

lemma record_history_steady:
  assumes "\<forall>j\<ge>k. clock j = now"
  shows "fst (record_history clock k pct sc tot hist)
           = (if now \<in> date ` set hist then hist
              else hist @ [\<lparr> date = now, score = pct, correct = sc, total = tot \<rparr>])
       \<and> (distinct (map date hist) \<longrightarrow>
            distinct (map date (fst (record_history clock k pct sc tot hist))))
       \<and> (case record_history clock k pct sc tot hist of
            (h1, k1) \<Rightarrow>
              fst (record_history clock k1 pct' sc' tot' h1) = h1
              \<and> length h1 \<le> length hist + 1)"
proof -
  obtain b k' where a: "any_same_date clock k hist = (b, k')"
    by (cases "any_same_date clock k hist")
  with any_same_date_steady[OF assms, of hist]
  have b: "b = (now \<in> date ` set hist)" and k': "k \<le> k'" by simp_all
  from k' assms have now: "clock k' = now" by simp
  have r: "record_history clock k pct sc tot hist =
      (if now \<in> date ` set hist then (hist, k')
       else (hist @ [\<lparr> date = now, score = pct, correct = sc, total = tot \<rparr>], Suc k'))"
    by (simp add: record_history_def a b now)
  let ?h1 = "fst (record_history clock k pct sc tot hist)"
  let ?k1 = "snd (record_history clock k pct sc tot hist)"
  have h1: "now \<in> date ` set ?h1" and k1: "k \<le> ?k1" and len: "length ?h1 \<le> length hist + 1"
    using r k' by auto
  from k1 assms have "\<forall>j\<ge>?k1. clock j = now" by simp
  from any_same_date_steady[OF this, of ?h1] h1
  have "fst (any_same_date clock ?k1 ?h1) = True" by simp
  then have again: "fst (record_history clock ?k1 pct' sc' tot' ?h1) = ?h1"
    by (cases "any_same_date clock ?k1 ?h1") (simp add: record_history_def)
  have d: "distinct (map date hist) \<longrightarrow> distinct (map date ?h1)"
    using r by auto
  from r again len d show ?thesis
    by (simp add: case_prod_beta)
qed

lemma any_same_date_bounds: "k \<le> snd (any_same_date clock k hist)"
proof (induction hist arbitrary: k)
  case Nil
  show ?case by simp
next
  case (Cons h hist)
  from Cons[of "Suc k"] show ?case by simp
qed

lemma any_same_date_none:
  "any_same_date clock k hist = (False, k') \<Longrightarrow>
     k' = k + length hist \<and> (\<forall>i<length hist. date (hist ! i) \<noteq> clock (k + i))"
proof (induction hist arbitrary: k)
  case Nil
  then show ?case by simp
next
  case (Cons h hist)
  from Cons.prems have ne: "date h \<noteq> clock k"
    and rest: "any_same_date clock (Suc k) hist = (False, k')"
    by (auto split: if_splits)
  from Cons.IH[OF rest] have k': "k' = Suc k + length hist"
    and r: "\<forall>i<length hist. date (hist ! i) \<noteq> clock (Suc k + i)" by simp_all
  have "date ((h # hist) ! i) \<noteq> clock (k + i)" if "i < length (h # hist)" for i
    using that ne r by (cases i) simp_all
  with k' show ?case by simp
qed

lemma record_history_across_minutes:
  assumes conv: "\<forall>i j l. i \<le> j \<and> j \<le> l \<and> clock i = clock l \<longrightarrow> clock j = clock i"
    and past: "\<forall>h\<in>set hist. \<exists>i\<le>k. date h = clock i"
    and dist: "distinct (map date hist)"
  shows "distinct (map date (fst (record_history clock k pct sc tot hist)))
       \<and> (\<forall>h\<in>set (fst (record_history clock k pct sc tot hist)).
            \<exists>i\<le>snd (record_history clock k pct sc tot hist). date h = clock i)"
proof -
  obtain b k' where a: "any_same_date clock k hist = (b, k')"
    by (cases "any_same_date clock k hist")
  from any_same_date_bounds[of k clock hist] a have kk': "k \<le> k'" by simp
  show ?thesis
  proof (cases b)
    case True
    with a have "record_history clock k pct sc tot hist = (hist, k')"
      by (simp add: record_history_def)
    with dist past kk' show ?thesis by (auto intro: le_trans)
  next
    case False
    with a have r: "record_history clock k pct sc tot hist =
        (hist @ [\<lparr> date = clock k', score = pct, correct = sc, total = tot \<rparr>], Suc k')"
      by (simp add: record_history_def)
    from a False any_same_date_none[of clock k hist k']
    have k': "k' = k + length hist"
      and none: "\<forall>i<length hist. date (hist ! i) \<noteq> clock (k + i)" by simp_all
    have fresh: "clock k' \<notin> date ` set hist"
    proof
      assume "clock k' \<in> date ` set hist"
      then obtain i where i: "i < length hist" and d: "date (hist ! i) = clock k'"
        by (auto simp: in_set_conv_nth)
      from past i obtain m where m: "m \<le> k" "date (hist ! i) = clock m"
        by (metis nth_mem)
      from m i k' have "m \<le> k + i" "k + i \<le> k'" by simp_all
      moreover from m d have "clock m = clock k'" by simp
      ultimately have "clock (k + i) = clock m" using conv by blast
      with m none i show False by metis
    qed
    have p: "\<exists>i\<le>Suc k'. date h = clock i" if "h \<in> set hist" for h
    proof -
      from past that obtain i where "i \<le> k" "date h = clock i" by blast
      with kk' show ?thesis by (intro exI[of _ i]) simp
    qed
    have "\<exists>i\<le>Suc k'. clock k' = clock i" by (intro exI[of _ k']) simp
    with r dist fresh p show ?thesis by auto
  qed
qed

text \<open>
  Claim C7, as amended. While every reading of the clock shows one minute \<open>now\<close>, recording
  appends an entry dated \<open>now\<close> exactly when no entry of the history has that date; dates
  that were pairwise different stay so; and recording a second time within the minute
  appends nothing, so that two calls add at most one entry. When the minute changes while
  the clock is read, the dates still stay pairwise different, as long as the clock never
  shows again a minute it has left and the entries are dated with readings already made
  (which then holds of the new history too).
\<close>

theorem record_history_once_a_minute:
  "((\<forall>j\<ge>k. clock j = now) \<longrightarrow>
      fst (record_history clock k pct sc tot hist)
        = (if now \<in> date ` set hist then hist
           else hist @ [\<lparr> date = now, score = pct, correct = sc, total = tot \<rparr>])
    \<and> (distinct (map date hist) \<longrightarrow>
         distinct (map date (fst (record_history clock k pct sc tot hist))))
    \<and> (case record_history clock k pct sc tot hist of
         (h1, k1) \<Rightarrow>
           fst (record_history clock k1 pct' sc' tot' h1) = h1
           \<and> length h1 \<le> length hist + 1))
   \<and> ((\<forall>i j l. i \<le> j \<and> j \<le> l \<and> clock i = clock l \<longrightarrow> clock j = clock i)
       \<and> (\<forall>h\<in>set hist. \<exists>i\<le>k. date h = clock i)
       \<and> distinct (map date hist) \<longrightarrow>
      distinct (map date (fst (record_history clock k pct sc tot hist)))
    \<and> (\<forall>h\<in>set (fst (record_history clock k pct sc tot hist)).
         \<exists>i\<le>snd (record_history clock k pct sc tot hist). date h = clock i))"
  using record_history_steady[of k clock now pct sc tot hist pct' sc' tot']
    record_history_across_minutes[of clock hist k pct sc tot]
  by blast

theorem record_history_once_a_minute_witness:
  "fst (record_history (\<lambda>j. ''2024-05-01 12:00'') 0 50 1 2 []) =
      [\<lparr> date = ''2024-05-01 12:00'', score = 50, correct = 1, total = 2 \<rparr>]
   \<and> fst (record_history (\<lambda>j. ''2024-05-01 12:00'') 1 100 2 2
        [\<lparr> date = ''2024-05-01 12:00'', score = 50, correct = 1, total = 2 \<rparr>]) =
      [\<lparr> date = ''2024-05-01 12:00'', score = 50, correct = 1, total = 2 \<rparr>]
   \<and> distinct (map date (fst (record_history
        (\<lambda>j. if j < 2 then ''2024-05-01 12:00'' else ''2024-05-01 12:01'') 2 100 2 2
        [\<lparr> date = ''2024-05-01 12:00'', score = 50, correct = 1, total = 2 \<rparr>])))"
proof -
  let ?e = "\<lparr> date = ''2024-05-01 12:00'', score = 50, correct = 1, total = 2 \<rparr>"
  let ?c = "\<lambda>j::nat. if j < 2 then ''2024-05-01 12:00'' else ''2024-05-01 12:01''"
  have c: "\<forall>j\<ge>k. (\<lambda>j. ''2024-05-01 12:00'') j = ''2024-05-01 12:00''" for k :: nat
    by simp
  have conv: "\<forall>i j l. i \<le> j \<and> j \<le> l \<and> ?c i = ?c l \<longrightarrow> ?c j = ?c i"
    by auto
  have past: "\<forall>h\<in>set [?e]. \<exists>i\<le>2. date h = ?c i"
    by (auto intro: exI[of _ 0])
  have dist: "distinct (map date [?e])" by simp
  from record_history_once_a_minute[of 0 "\<lambda>j. ''2024-05-01 12:00''" "''2024-05-01 12:00''"
      50 1 2 "[]"] c
  have 1: "fst (record_history (\<lambda>j. ''2024-05-01 12:00'') 0 50 1 2 []) = [?e]"
    by simp
  from record_history_once_a_minute[of 1 "\<lambda>j. ''2024-05-01 12:00''" "''2024-05-01 12:00''"
      100 2 2 "[?e]"] c
  have 2: "fst (record_history (\<lambda>j. ''2024-05-01 12:00'') 1 100 2 2 [?e]) = [?e]"
    by simp
  from record_history_once_a_minute[of 2 ?c _ 100 2 2 "[?e]"] conv past dist
  have 3: "distinct (map date (fst (record_history ?c 2 100 2 2 [?e])))"
    by blast
  from 1 2 3 show ?thesis by blast
qed
text \<open>
  Claim C7 as stated says that the history never holds two entries with the same date.
  The guard compares each entry with one reading of the clock and dates the new entry with
  a later reading: here the clock shows 12:01 when the only entry, dated 12:00, is looked
  at, and 12:00 again when the new entry is dated, and the history ends with two entries
  dated 12:00.
\<close>

theorem record_history_duplicate_date:
  "map date (fst (record_history
      (\<lambda>j. if j = 0 then ''2024-05-01 12:01'' else ''2024-05-01 12:00'') 0 100 2 2
      [\<lparr> date = ''2024-05-01 12:00'', score = 50, correct = 1, total = 2 \<rparr>]))
   = [''2024-05-01 12:00'', ''2024-05-01 12:00'']"
  by (simp add: record_history_def)


subsection \<open>Grading\<close>

lemma py_eq_str: "py_eq x (JStr a) = (x = JStr a)"
  by (cases x) auto

lemma card_Suc_split:
  "card {j. j < Suc n \<and> P j} = (if P 0 then 1 else 0) + card {j. j < n \<and> P (Suc j)}"
proof -
  have e: "{j. j < Suc n \<and> P j} = (if P 0 then {0} else {}) \<union> Suc ` {j. j < n \<and> P (Suc j)}"
    (is "?L = ?A \<union> ?B")
  proof (intro set_eqI iffI)
    fix j assume "j \<in> ?L"
    then show "j \<in> ?A \<union> ?B" by (cases j) auto
  next
    fix j assume "j \<in> ?A \<union> ?B"
    then show "j \<in> ?L" by (auto split: if_splits)
  qed
  have f: "finite ?A" "finite ?B" by auto
  have d: "?A \<inter> ?B = {}" by auto
  have "card ?B = card {j. j < n \<and> P (Suc j)}"
    by (rule card_image) simp
  moreover have "card ?A = (if P 0 then 1 else 0)" by simp
  ultimately show ?thesis
    unfolding e using card_Un_disjoint[OF f d] by simp
qed

lemma grade_counts:
  assumes "\<forall>q\<in>set qs. \<exists>a t. py_subscript ''answer'' q = Inr (JStr a)
                          \<and> py_subscript ''question'' q = Inr t"
  shows "grade ua i qs sc =
      Inr (sc + card {j. j < length qs
                       \<and> py_subscript ''answer'' (qs ! j) = Inr (answers_get ua (i + j))})"
  using assms
proof (induction qs arbitrary: i sc)
  case Nil
  then show ?case by simp
next
  case (Cons q qs)
  then obtain a t where q: "py_subscript ''answer'' q = Inr (JStr a)"
      "py_subscript ''question'' q = Inr t" by auto
  from Cons.prems have rest: "\<forall>q\<in>set qs. \<exists>a t. py_subscript ''answer'' q = Inr (JStr a)
                          \<and> py_subscript ''question'' q = Inr t" by simp
  have c: "card {j. j < Suc (length qs)
                 \<and> py_subscript ''answer'' ((q # qs) ! j) = Inr (answers_get ua (i + j))}
      = (if answers_get ua i = JStr a then 1 else 0)
        + card {j. j < length qs
                 \<and> py_subscript ''answer'' (qs ! j) = Inr (answers_get ua (Suc i + j))}"
    by (subst card_Suc_split) (auto simp: q)
  show ?case
    using Cons.IH[OF rest, of "Suc i"] c
    by (simp add: q py_eq_str Let_def)
qed

lemma exact_bands:
  assumes "0 < N"
  shows "80 \<le> 100 * real n / real N \<longleftrightarrow> 4 * N \<le> 5 * n"
    and "60 \<le> 100 * real n / real N \<longleftrightarrow> 3 * N \<le> 5 * n"
proof -
  from assms have N: "0 < real N" by simp
  have "80 \<le> 100 * real n / real N \<longleftrightarrow> real (4 * N) \<le> real (5 * n)"
    using N by (simp add: field_simps)
  then show "80 \<le> 100 * real n / real N \<longleftrightarrow> 4 * N \<le> 5 * n"
    by (simp only: of_nat_le_iff)
  have "60 \<le> 100 * real n / real N \<longleftrightarrow> real (3 * N) \<le> real (5 * n)"
    using N by (simp add: field_simps)
  then show "60 \<le> 100 * real n / real N \<longleftrightarrow> 3 * N \<le> 5 * n"
    by (simp only: of_nat_le_iff)
qed

lemma message_bands:
  "message p = ''Excellent work!'' \<longleftrightarrow> 80 \<le> p"
  "message p = ''Good job!'' \<longleftrightarrow> 60 \<le> p \<and> p < 80"
  "message p = ''Keep studying!'' \<longleftrightarrow> p < 60"
  by (auto simp: message_def)

text \<open>
  Claim C2, as amended. For a quiz whose answer fields are strings, the results view
  counts as the score the indices whose stored answer is the very string of the answer
  field (an index without a stored answer never counts), and shows and records that score,
  the number of questions, the percentage and the message. The percentage is
  \<^verbatim>\<open>(score / total) * 100\<close> in floating point: \<open>100 * score / total\<close> rounded twice, away
  from it by at most one part in \<open>2 ^ 51\<close>. The message is "Excellent work!" exactly when
  the percentage is at least 80, "Good job!" exactly from 60 to below 80, and
  "Keep studying!" exactly below 60; for a quiz of fewer than \<open>2 ^ 40\<close> questions these are
  the same bands as those of \<open>100 * score / total\<close>. For the answers "b) X" and "a) Y" and the
  stored answers "b) X" and "b) Y" the score is 1, the percentage 50 and the message
  "Keep studying!".
\<close>

theorem grading_counts_exact_matches:
  assumes "\<forall>q\<in>set (quiz s). \<exists>a t. py_subscript ''answer'' q = Inr (JStr a)
                          \<and> py_subscript ''question'' q = Inr t"
    and "quiz s \<noteq> []"
  shows "let n = card {i. i < length (quiz s)
                       \<and> py_subscript ''answer'' (quiz s ! i)
                           = Inr (answers_get (user_answers s) i)};
             N = length (quiz s)
         in score_card s
              = Inr \<lparr> card_message = message (percentage n N), card_score = n, card_total = N,
                      card_percentage = percentage n N \<rparr>
          \<and> results_view clock k s
              = (s\<lparr>quiz_history :=
                     fst (record_history clock k (percentage n N) n N (quiz_history s))\<rparr>, None)
          \<and> (show_results s \<longrightarrow> quiz_page clock k radio None s = results_view clock k s)
          \<and> \<bar>percentage n N - 100 * real n / real N\<bar> \<le> 100 * real n / real N / 2 ^ 51
          \<and> (message (percentage n N) = ''Excellent work!'' \<longleftrightarrow> 80 \<le> percentage n N)
          \<and> (message (percentage n N) = ''Good job!'' \<longleftrightarrow>
                60 \<le> percentage n N \<and> percentage n N < 80)
          \<and> (message (percentage n N) = ''Keep studying!'' \<longleftrightarrow> percentage n N < 60)
          \<and> (N < 2 ^ 40 \<longrightarrow>
                (80 \<le> percentage n N \<longleftrightarrow> 80 \<le> 100 * real n / real N)
              \<and> (60 \<le> percentage n N \<longleftrightarrow> 60 \<le> 100 * real n / real N))
          \<and> score_card (init_session_state\<lparr>page := QuizPage,
               quiz := [JObj [(''question'', JStr ''Q1''), (''answer'', JStr ''b) X'')],
                        JObj [(''question'', JStr ''Q2''), (''answer'', JStr ''a) Y'')]],
               user_answers := [(0, JStr ''b) X''), (1, JStr ''b) Y'')],
               show_results := True\<rparr>)
              = Inr \<lparr> card_message = ''Keep studying!'', card_score = 1, card_total = 2,
                      card_percentage = 50 \<rparr>"
proof -
  define n where "n = card {i. i < length (quiz s)
                       \<and> py_subscript ''answer'' (quiz s ! i)
                           = Inr (answers_get (user_answers s) i)}"
  define N where "N = length (quiz s)"
  have N: "0 < N" using assms(2) by (simp add: N_def)
  have nN: "n \<le> N" unfolding n_def N_def by (rule card_below)
  have g: "grade (user_answers s) 0 (quiz s) 0 = Inr n"
    using grade_counts[OF assms(1), of "user_answers s" 0 0] by (simp add: n_def)
  have c: "score_card s
              = Inr \<lparr> card_message = message (percentage n N), card_score = n, card_total = N,
                      card_percentage = percentage n N \<rparr>"
    using N by (simp add: score_card_def g N_def Let_def)
  have v: "results_view clock k s
              = (s\<lparr>quiz_history :=
                     fst (record_history clock k (percentage n N) n N (quiz_history s))\<rparr>, None)"
    by (simp add: results_view_def c)
  have p: "show_results s \<longrightarrow> quiz_page clock k radio None s = results_view clock k s"
    using assms(2) by (simp add: quiz_page_def v)
  have e: "\<bar>percentage n N - 100 * real n / real N\<bar> \<le> 100 * real n / real N / 2 ^ 51"
    by (rule percentage_error)
  have b: "N < 2 ^ 40 \<longrightarrow>
                (80 \<le> percentage n N \<longleftrightarrow> 80 \<le> 100 * real n / real N)
              \<and> (60 \<le> percentage n N \<longleftrightarrow> 60 \<le> 100 * real n / real N)"
    using percentage_bands[OF nN N] exact_bands[OF N, of n] by simp
  have x: "score_card (init_session_state\<lparr>page := QuizPage,
               quiz := [JObj [(''question'', JStr ''Q1''), (''answer'', JStr ''b) X'')],
                        JObj [(''question'', JStr ''Q2''), (''answer'', JStr ''a) Y'')]],
               user_answers := [(0, JStr ''b) X''), (1, JStr ''b) Y'')],
               show_results := True\<rparr>)
              = Inr \<lparr> card_message = ''Keep studying!'', card_score = 1, card_total = 2,
                      card_percentage = 50 \<rparr>"
    by (simp add: score_card_def answers_get_def percentage_1_2 message_def Let_def
        init_session_state_def)
  from c v p e b x message_bands[of "percentage n N"] show ?thesis
    unfolding Let_def n_def N_def by blast
qed

theorem grading_counts_exact_matches_witness:
  "card {i. i < length [JObj [(''question'', JStr ''Q1''), (''answer'', JStr ''b) X'')],
                        JObj [(''question'', JStr ''Q2''), (''answer'', JStr ''a) Y'')]]
          \<and> py_subscript ''answer''
               ([JObj [(''question'', JStr ''Q1''), (''answer'', JStr ''b) X'')],
                 JObj [(''question'', JStr ''Q2''), (''answer'', JStr ''a) Y'')]] ! i)
             = Inr (answers_get [(0, JStr ''b) X''), (1, JStr ''b) Y'')] i)} = 1
   \<and> results_view (\<lambda>j. ''2024-05-01 12:00'') 0
        (init_session_state\<lparr>page := QuizPage,
           quiz := [JObj [(''question'', JStr ''Q1''), (''answer'', JStr ''b) X'')],
                    JObj [(''question'', JStr ''Q2''), (''answer'', JStr ''a) Y'')]],
           user_answers := [(0, JStr ''b) X''), (1, JStr ''b) Y'')],
           show_results := True\<rparr>)
      = (init_session_state\<lparr>page := QuizPage,
           quiz := [JObj [(''question'', JStr ''Q1''), (''answer'', JStr ''b) X'')],
                    JObj [(''question'', JStr ''Q2''), (''answer'', JStr ''a) Y'')]],
           user_answers := [(0, JStr ''b) X''), (1, JStr ''b) Y'')],
           show_results := True,
           quiz_history := [\<lparr> date = ''2024-05-01 12:00'', score = 50, correct = 1, total = 2 \<rparr>]\<rparr>,
         None)"
  (is "card ?M = 1 \<and> results_view ?c 0 ?s = ?r")
proof -
  have wf: "\<forall>q\<in>set (quiz ?s). \<exists>a t. py_subscript ''answer'' q = Inr (JStr a)
                          \<and> py_subscript ''question'' q = Inr t"
    and ne: "quiz ?s \<noteq> []"
    by simp_all
  have q: "quiz ?s = [JObj [(''question'', JStr ''Q1''), (''answer'', JStr ''b) X'')],
                      JObj [(''question'', JStr ''Q2''), (''answer'', JStr ''a) Y'')]]"
    and u: "user_answers ?s = [(0, JStr ''b) X''), (1, JStr ''b) Y'')]"
    and h: "quiz_history ?s = []"
    by (simp_all add: init_session_state_def)
  have direct: "score_card ?s
      = Inr \<lparr> card_message = ''Keep studying!'', card_score = 1, card_total = 2,
              card_percentage = 50 \<rparr>"
    by (simp add: score_card_def answers_get_def percentage_1_2 message_def Let_def
        init_session_state_def)
  note t = grading_counts_exact_matches[OF wf ne, of ?c 0 "\<lambda>i. JNull", unfolded Let_def q u h]
  from t have "score_card ?s
      = Inr \<lparr> card_message = message (percentage (card ?M) (length (quiz ?s))),
              card_score = card ?M, card_total = length (quiz ?s),
              card_percentage = percentage (card ?M) (length (quiz ?s)) \<rparr>"
    unfolding q by (rule conjunct1)
  with direct have n: "card ?M = 1" by simp
  from t have "results_view ?c 0 ?s
      = (?s\<lparr>quiz_history :=
              fst (record_history ?c 0 (percentage (card ?M) (length (quiz ?s))) (card ?M)
                     (length (quiz ?s)) [])\<rparr>,
         None)"
    unfolding q by (rule conjunct1[OF conjunct2])
  then have "results_view ?c 0 ?s = ?r"
    unfolding n by (simp add: percentage_1_2 record_history_def init_session_state_def)
  with n show ?thesis by blast
qed

text \<open>
  Claim C2 as stated gives the percentage as \<open>100 * score / total\<close>. For 7 right answers
  out of 100 that is 7, but the program's two roundings give the next float above 7
  (printed \<^verbatim>\<open>7.000000000000001\<close>), which is what the history then holds.
\<close>

theorem percentage_seven_of_hundred:
  "percentage 7 100 = 7 + 1 / 2 ^ 50 \<and> percentage 7 100 \<noteq> 100 * real 7 / real 100"
  by (simp add: percentage_7_100)

subsection \<open>Shuffling\<close>

lemma shuffle_loop_perm:
  "i < length xs \<Longrightarrow> mset (fst (shuffle_loop rnd k i xs)) = mset xs"
proof (induction i arbitrary: k xs)
  case 0
  then show ?case by simp
next
  case (Suc i)
  let ?j = "randbelow rnd k (Suc i + 1)"
  let ?ys = "xs[Suc i := xs ! ?j, ?j := xs ! Suc i]"
  have j: "?j < length xs"
  proof -
    have "?j < Suc i + 1" by (simp add: randbelow_def)
    with Suc.prems show ?thesis by simp
  qed
  have "mset ?ys = mset xs"
    by (rule mset_swap[OF j Suc.prems])
  moreover have "i < length ?ys" using Suc.prems by simp
  ultimately show ?case
    using Suc.IH[of ?ys "Suc k"] by (simp add: Let_def)
qed

lemma py_shuffle_list:
  "\<exists>ys k'. py_shuffle rnd k (JArr xs) = Inr (JArr ys, k') \<and> mset ys = mset xs"
proof (cases xs)
  case Nil
  then show ?thesis by simp
next
  case (Cons x xs')
  then have "length xs - 1 < length xs" by simp
  from shuffle_loop_perm[OF this, of rnd k] show ?thesis
    by (cases "shuffle_loop rnd k (length xs - 1) xs") simp
qed

lemma has_keys_dict:
  "has_keys (JObj kv) = Inr ({''options'', ''answer'', ''question''} \<subseteq> fst ` set kv)"
  by (simp add: has_keys_def split: bool.splits)

lemma map_of_key: "map_of kv key = Some v \<Longrightarrow> key \<in> fst ` set kv"
  by (metis map_of_eq_None_iff option.distinct(1))

lemma shuffle_question_dict:
  assumes "map_of kv ''question'' = Some t"
    and "map_of kv ''options'' = Some (JArr opts)"
    and "map_of kv ''answer'' = Some a"
  shows "\<exists>kv' opts' k'.
           shuffle_question rnd k (JObj kv) = Continue (JObj kv', k')
         \<and> map_of kv' = (map_of kv)(''options'' \<mapsto> JArr opts')
         \<and> mset opts' = mset opts
         \<and> map_of kv' ''answer'' = Some a"
proof -
  from assms have keys: "has_keys (JObj kv) = Inr True"
    by (simp add: has_keys_dict map_of_key)
  obtain opts' k' where sh: "py_shuffle rnd k (JArr opts) = Inr (JArr opts', k')"
    and perm: "mset opts' = mset opts"
    using py_shuffle_list by blast
  let ?kv' = "AList.update ''answer'' a (AList.update ''options'' (JArr opts') kv)"
  have run: "shuffle_question rnd k (JObj kv) = Continue (JObj ?kv', k')"
    by (simp add: shuffle_question_def keys assms(2,3) sh del: py_shuffle.simps)
  have m: "map_of ?kv' = (map_of kv)(''options'' \<mapsto> JArr opts')"
    using assms(3) by (auto simp: update_conv' fun_eq_iff)
  have ans: "map_of ?kv' ''answer'' = Some a"
    by (simp add: update_conv')
  from run m perm ans show ?thesis by blast
qed

text \<open>
  Claim C1. For a question with the three keys, a list of options and an answer that is
  one of them, the body of the loop ends normally, the options afterwards are a permutation
  of the options before (the same multiset), nothing else of the question has changed, the
  answer is the same value as before, and it is still one of the options.
\<close>

theorem shuffle_question_permutes_options:
  assumes "map_of kv ''question'' = Some t"
    and "map_of kv ''options'' = Some (JArr opts)"
    and "map_of kv ''answer'' = Some a"
    and "a \<in> set opts"
  shows "\<exists>kv' opts' k'.
           shuffle_question rnd k (JObj kv) = Continue (JObj kv', k')
         \<and> map_of kv' = (map_of kv)(''options'' \<mapsto> JArr opts')
         \<and> mset opts' = mset opts
         \<and> map_of kv' ''answer'' = Some a
         \<and> a \<in> set opts'"
proof -
  from shuffle_question_dict[OF assms(1,2,3), of rnd k]
  obtain kv' opts' k' where r: "shuffle_question rnd k (JObj kv) = Continue (JObj kv', k')"
      "map_of kv' = (map_of kv)(''options'' \<mapsto> JArr opts')"
      "mset opts' = mset opts" "map_of kv' ''answer'' = Some a"
    by blast
  from r(3) assms(4) have "a \<in> set opts'"
    by (metis mset_eq_setD)
  with r show ?thesis by blast
qed

theorem shuffle_question_permutes_options_witness:
  "shuffle_question (\<lambda>j. 0) 0
     (JObj [(''question'', JStr ''Q''),
            (''options'', JArr [JStr ''a) A'', JStr ''b) B'', JStr ''c) C'']),
            (''answer'', JStr ''b) B'')])
   = Continue
     (JObj [(''question'', JStr ''Q''),
            (''options'', JArr [JStr ''b) B'', JStr ''c) C'', JStr ''a) A'']),
            (''answer'', JStr ''b) B'')], 2)
   \<and> mset [JStr ''b) B'', JStr ''c) C'', JStr ''a) A'']
       = mset [JStr ''a) A'', JStr ''b) B'', JStr ''c) C'']"
proof -
  let ?kv = "[(''question'', JStr ''Q''),
            (''options'', JArr [JStr ''a) A'', JStr ''b) B'', JStr ''c) C'']),
            (''answer'', JStr ''b) B'')]"
  have run: "shuffle_question (\<lambda>j. 0) 0 (JObj ?kv)
   = Continue
     (JObj [(''question'', JStr ''Q''),
            (''options'', JArr [JStr ''b) B'', JStr ''c) C'', JStr ''a) A'']),
            (''answer'', JStr ''b) B'')], 2)"
    by (simp add: shuffle_question_def has_keys_def randbelow_def Let_def)
  have h: "map_of ?kv ''question'' = Some (JStr ''Q'')"
    "map_of ?kv ''options'' = Some (JArr [JStr ''a) A'', JStr ''b) B'', JStr ''c) C''])"
    "map_of ?kv ''answer'' = Some (JStr ''b) B'')"
    "JStr ''b) B'' \<in> set [JStr ''a) A'', JStr ''b) B'', JStr ''c) C'']"
    by simp_all
  from shuffle_question_permutes_options[OF h, of "\<lambda>j. 0" 0] run
  show ?thesis by auto
qed

subsection \<open>How the loop over the questions ends\<close>

lemma shuffle_question_Continue:
  assumes "shuffle_question rnd k q = Continue (q', k')"
  shows "\<exists>kv kv'. q = JObj kv \<and> q' = JObj kv'
           \<and> {''options'', ''answer'', ''question''} \<subseteq> fst ` set kv'"
proof (cases q)
  case (JObj kv)
  with assms have "has_keys (JObj kv) = Inr True"
    by (auto simp: shuffle_question_def split: sum.splits bool.splits)
  then have keys: "{''options'', ''answer'', ''question''} \<subseteq> fst ` set kv"
    by (simp add: has_keys_dict)
  from assms JObj obtain opts' a where "q' = JObj (AList.update ''answer'' a
      (AList.update ''options'' opts' kv))"
    by (auto simp: shuffle_question_def
        split: bool.splits sum.splits option.splits prod.splits)
  with keys JObj show ?thesis by (auto simp: dom_update)
qed (use assms in \<open>auto simp: shuffle_question_def has_keys_def split: sum.splits bool.splits\<close>)

lemma shuffle_question_Returned:
  "shuffle_question rnd k q = Returned m \<Longrightarrow> m = ''Invalid question format received.''"
  by (auto simp: shuffle_question_def split: sum.splits bool.splits prod.splits)

lemma shuffle_questions_Continue:
  "shuffle_questions rnd k qs = Continue (qs', k') \<Longrightarrow>
     length qs' = length qs
   \<and> (\<forall>q\<in>set qs. \<exists>kv. q = JObj kv)
   \<and> (\<forall>q'\<in>set qs'. \<exists>kv'. q' = JObj kv'
          \<and> {''options'', ''answer'', ''question''} \<subseteq> fst ` set kv')"
proof (induction qs arbitrary: k qs' k')
  case Nil
  then show ?case by simp
next
  case (Cons q qs)
  from Cons.prems obtain q1 k1 qs1 where
    h: "shuffle_question rnd k q = Continue (q1, k1)"
    and t: "shuffle_questions rnd k1 qs = Continue (qs1, k')"
    and r: "qs' = q1 # qs1"
    by (auto split: flow.splits prod.splits)
  from shuffle_question_Continue[OF h] Cons.IH[OF t] r show ?case by auto
qed

lemma shuffle_questions_Returned:
  "shuffle_questions rnd k qs = Returned m \<Longrightarrow> m = ''Invalid question format received.''"
proof (induction qs arbitrary: k)
  case Nil
  then show ?case by simp
next
  case (Cons q qs)
  then show ?case
    by (auto split: flow.splits prod.splits dest: shuffle_question_Returned)
qed

lemma check_and_shuffle_Continue:
  assumes "check_and_shuffle rnd quiz_data = Continue v"
  shows "\<exists>qs. v = JArr qs \<and> qs \<noteq> []
           \<and> (\<forall>q\<in>set qs. \<exists>kv. q = JObj kv
                 \<and> {''options'', ''answer'', ''question''} \<subseteq> fst ` set kv)"
proof -
  from assms obtain quiz_questions items items' k where
    g: "py_get ''quiz'' (JArr []) quiz_data = Inr quiz_questions"
    and tr: "truthy quiz_questions"
    and it: "py_iter quiz_questions = Inr items"
    and sh: "shuffle_questions rnd 0 items = Continue (items', k)"
    and v: "v = (case quiz_questions of JArr _ \<Rightarrow> JArr items' | w \<Rightarrow> w)"
    by (auto simp: check_and_shuffle_def split: sum.splits if_splits flow.splits prod.splits)
  note c = shuffle_questions_Continue[OF sh]
  show ?thesis
  proof (cases quiz_questions)
    case (JArr xs)
    with it tr have "items = xs" "xs \<noteq> []" by simp_all
    with c have "items' \<noteq> []" by auto
    with c v JArr show ?thesis by auto
  next
    case (JStr x)
    with it tr obtain y ys where "items = JStr y # ys"
      by (cases x) auto
    with c show ?thesis by auto
  next
    case (JObj kv)
    with it tr obtain y ys where "items = JStr y # ys"
      by (cases kv) auto
    with c show ?thesis by auto
  qed (use it in auto)
qed

lemma check_and_shuffle_Returned:
  "check_and_shuffle rnd quiz_data = Returned m \<Longrightarrow>
     m = ''No questions were generated. Try with more text.''
   \<or> m = ''Invalid question format received.''"
  by (auto simp: check_and_shuffle_def
      split: sum.splits if_splits flow.splits prod.splits dest: shuffle_questions_Returned)

lemma load_quiz_data_Returned:
  "load_quiz_data loads result = Returned m \<Longrightarrow> m = ''Failed to parse quiz response.''"
  by (auto simp: load_quiz_data_def split: option.splits decoded.splits)

lemma parse_response_Returned:
  "parse_response loads rnd raw = Returned m \<Longrightarrow>
     m = ''Failed to parse quiz response.''
   \<or> m = ''No questions were generated. Try with more text.''
   \<or> m = ''Invalid question format received.''"
  by (auto simp: parse_response_def split: flow.splits
      dest: load_quiz_data_Returned check_and_shuffle_Returned)

lemma parse_response_Continue:
  "parse_response loads rnd raw = Continue v \<Longrightarrow>
     \<exists>qs. v = JArr qs \<and> qs \<noteq> []
        \<and> (\<forall>q\<in>set qs. \<exists>kv. q = JObj kv
              \<and> {''options'', ''answer'', ''question''} \<subseteq> fst ` set kv)"
  by (auto simp: parse_response_def split: flow.splits dest: check_and_shuffle_Continue)

lemma handle_exception_message:
  "\<exists>m. handle_exception e = (None, Some m) \<and> m \<noteq> []"
  by (cases e) simp_all

lemma generate_quiz_outcome:
  "(\<exists>m. fst (generate_quiz API_KEY post loads rnd text n) = (None, Some m) \<and> m \<noteq> [])
   \<or> (\<exists>qs. fst (generate_quiz API_KEY post loads rnd text n) = (Some (JArr qs), None)
          \<and> qs \<noteq> []
          \<and> (\<forall>q\<in>set qs. \<exists>kv. q = JObj kv
                \<and> {''options'', ''answer'', ''question''} \<subseteq> fst ` set kv))"
proof -
  have r: "m = ''Failed to parse quiz response.''
         \<or> m = ''No questions were generated. Try with more text.''
         \<or> m = ''Invalid question format received.'' \<Longrightarrow> m \<noteq> []" for m :: string
    by auto
  show ?thesis
    unfolding generate_quiz_def Let_def
    using handle_exception_message
    by (auto split: sum.splits flow.splits
        dest!: parse_response_Continue parse_response_Returned r)
qed

lemma generate_quiz_result_is_list:
  "fst (fst (generate_quiz API_KEY post loads rnd text n)) = Some v \<Longrightarrow>
     \<exists>qs. v = JArr qs \<and> qs \<noteq> []"
  using generate_quiz_outcome[of API_KEY post loads rnd "text" n] by auto

text \<open>
  Claim C10. Whatever the text, the count, the key, the answer of the service, the
  behaviour of \<^verbatim>\<open>json.loads\<close> (a value, a \<^verbatim>\<open>JSONDecodeError\<close> or any other exception) and
  the random draws, \<^verbatim>\<open>generate_quiz\<close> returns a pair of which exactly one component is
  \<^verbatim>\<open>None\<close>: either a list, not empty, of dicts that each have the keys \<^verbatim>\<open>question\<close>,
  \<^verbatim>\<open>options\<close> and \<^verbatim>\<open>answer\<close>, with no error; or no result and a message that is not
  empty. Every exception raised inside the \<^verbatim>\<open>try\<close> block ends in \<open>handle_exception\<close>, so
  none reaches the caller.
\<close>

theorem generate_quiz_result_or_error:
  "case fst (generate_quiz API_KEY post loads rnd text n) of
     (result, error) \<Rightarrow>
       (result = None) \<noteq> (error = None)
     \<and> (error = None \<longrightarrow>
          (\<exists>qs. result = Some (JArr qs) \<and> qs \<noteq> []
             \<and> (\<forall>q\<in>set qs. \<exists>kv. q = JObj kv
                   \<and> {''options'', ''answer'', ''question''} \<subseteq> fst ` set kv)))
     \<and> (result = None \<longrightarrow> (\<exists>m. error = Some m \<and> m \<noteq> []))"
  using generate_quiz_outcome[of API_KEY post loads rnd "text" n] by auto

theorem generate_quiz_result_or_error_witness:
  "snd (fst (generate_quiz ''sk-key''
        (\<lambda>r. Inr \<lparr> status_code = 200, content = Inr ''{}'' \<rparr>)
        (\<lambda>x. Decoded (JObj [(''quiz'', JArr [JObj [(''question'', JStr ''Q''),
            (''options'', JArr [JStr ''a) A'', JStr ''b) B'']), (''answer'', JStr ''a) A'')]])]))
        (\<lambda>j. 0) ''Cells divide.'' 1)) = None
   \<and> (\<exists>qs. fst (fst (generate_quiz ''sk-key''
        (\<lambda>r. Inr \<lparr> status_code = 200, content = Inr ''{}'' \<rparr>)
        (\<lambda>x. Decoded (JObj [(''quiz'', JArr [JObj [(''question'', JStr ''Q''),
            (''options'', JArr [JStr ''a) A'', JStr ''b) B'']), (''answer'', JStr ''a) A'')]])]))
        (\<lambda>j. 0) ''Cells divide.'' 1)) = Some (JArr qs) \<and> qs \<noteq> [])
   \<and> fst (generate_quiz ''sk-key'' (\<lambda>r. Inl Timeout) (\<lambda>x. JSONDecodeError) (\<lambda>j. 0) ''Cells divide.'' 1)
       = (None, Some ''Request timed out. Please try again.'')
   \<and> fst (generate_quiz ''sk-key''
        (\<lambda>r. Inr \<lparr> status_code = 200, content = Inr ''[[[['' \<rparr>)
        (\<lambda>x. DecodeRaised ''maximum recursion depth exceeded'') (\<lambda>j. 0) ''Cells divide.'' 1)
       = (None, Some ''Unexpected error: maximum recursion depth exceeded'')"
  (is "snd (fst ?g) = None \<and> (\<exists>qs. fst (fst ?g) = Some (JArr qs) \<and> qs \<noteq> []) \<and> ?t \<and> ?r")
proof -
  have s: "strip ''Cells divide.'' \<noteq> []"
    by (simp add: strip_def isspace_def)
  have c: "clean_response ''{}'' = ''{}''"
    by (simp add: clean_response_def strip_def strip_open_fence_def fence_open_def
        fence_close_def match_close_fence_def isspace_def)
  have e: "snd (fst ?g) = None"
    by (simp add: generate_quiz_def s parse_response_def c load_quiz_data_def
        check_and_shuffle_def shuffle_question_def has_keys_def randbelow_def)
  have t: ?t
    by (simp add: generate_quiz_def s)
  have r: ?r
    by (simp add: generate_quiz_def s parse_response_def load_quiz_data_def)
  from generate_quiz_result_or_error[of "''sk-key''"
        "\<lambda>r. Inr \<lparr> status_code = 200, content = Inr ''{}'' \<rparr>"
        "\<lambda>x. Decoded (JObj [(''quiz'', JArr [JObj [(''question'', JStr ''Q''),
            (''options'', JArr [JStr ''a) A'', JStr ''b) B'']), (''answer'', JStr ''a) A'')]])])"
        "\<lambda>j. 0" "''Cells divide.''" 1] e
  have "\<exists>qs. fst (fst ?g) = Some (JArr qs) \<and> qs \<noteq> []"
    by (auto split: prod.splits)
  with e t r show ?thesis by blast
qed

subsection \<open>The parser's failures\<close>

lemma load_quiz_data_fails_iff:
  "load_quiz_data loads result = Returned ''Failed to parse quiz response.'' \<longleftrightarrow>
     loads result = JSONDecodeError
   \<and> (case search_braces result of
        None \<Rightarrow> True | Some m \<Rightarrow> \<forall>quiz_data. loads m \<noteq> Decoded quiz_data)"
  by (auto simp: load_quiz_data_def split: option.splits decoded.splits)

lemma parse_response_fails_iff:
  "parse_response loads rnd raw = Returned ''Failed to parse quiz response.'' \<longleftrightarrow>
     load_quiz_data loads (clean_response raw) = Returned ''Failed to parse quiz response.''"
  by (auto simp: parse_response_def split: flow.splits
      dest: check_and_shuffle_Returned load_quiz_data_Returned)

lemma shuffle_question_lacking:
  "\<not> {''options'', ''answer'', ''question''} \<subseteq> fst ` set qkv \<Longrightarrow>
     shuffle_question rnd k (JObj qkv) = Returned ''Invalid question format received.''"
proof -
  assume "\<not> {''options'', ''answer'', ''question''} \<subseteq> fst ` set qkv"
  then have "has_keys (JObj qkv) = Inr False"
    by (simp add: has_keys_dict)
  then show ?thesis by (simp add: shuffle_question_def)
qed

lemma shuffle_questions_stop:
  assumes "\<forall>p\<in>set pre. \<exists>pkv opts. p = JObj pkv
              \<and> {''options'', ''answer'', ''question''} \<subseteq> fst ` set pkv
              \<and> map_of pkv ''options'' = Some (JArr opts)"
    and "\<not> {''options'', ''answer'', ''question''} \<subseteq> fst ` set qkv"
  shows "shuffle_questions rnd k (pre @ JObj qkv # post)
           = Returned ''Invalid question format received.''"
  using assms(1)
proof (induction pre arbitrary: k)
  case Nil
  show ?case by (simp add: shuffle_question_lacking[OF assms(2)])
next
  case (Cons p pre)
  then obtain pkv opts where p: "p = JObj pkv"
    and keys: "{''options'', ''answer'', ''question''} \<subseteq> fst ` set pkv"
    and o: "map_of pkv ''options'' = Some (JArr opts)"
    by auto
  from keys obtain t a where ta: "map_of pkv ''question'' = Some t" "map_of pkv ''answer'' = Some a"
    by (metis insert_subset map_of_eq_None_iff not_Some_eq)
  from shuffle_question_dict[OF ta(1) o ta(2), of rnd k]
  obtain kv' k' where "shuffle_question rnd k p = Continue (JObj kv', k')"
    using p by blast
  moreover from Cons have "shuffle_questions rnd k' (pre @ JObj qkv # post)
           = Returned ''Invalid question format received.''" by simp
  ultimately show ?case by simp
qed

lemma dropWhile_until: "c \<notin> set xs \<Longrightarrow> dropWhile (\<lambda>x. x \<noteq> c) (xs @ c # ys) = c # ys"
  by (induction xs) auto

lemma dropWhile_absent: "c \<notin> set xs \<Longrightarrow> dropWhile (\<lambda>x. x \<noteq> c) xs = []"
  by (induction xs) auto

lemma search_braces_span:
  assumes "CHR ''{'' \<notin> set before" and "CHR ''}'' \<notin> set after"
  shows "search_braces (before @ CHR ''{'' # mid @ CHR ''}'' # after)
           = Some (CHR ''{'' # mid @ [CHR ''}''])"
proof -
  have d: "dropWhile (\<lambda>c. c \<noteq> CHR ''{'') (before @ CHR ''{'' # mid @ CHR ''}'' # after)
         = CHR ''{'' # mid @ CHR ''}'' # after"
    by (rule dropWhile_until[OF assms(1)])
  from assms(2) have "CHR ''}'' \<notin> set (rev after)" by simp
  then have "dropWhile (\<lambda>c. c \<noteq> CHR ''}'') (rev after @ CHR ''}'' # rev mid) = CHR ''}'' # rev mid"
    by (rule dropWhile_until)
  then have r: "rev (dropWhile (\<lambda>c. c \<noteq> CHR ''}'') (rev (mid @ CHR ''}'' # after)))
         = mid @ [CHR ''}'']"
    by simp
  show ?thesis
    unfolding search_braces_def d using r by simp
qed

lemma search_braces_no_brace:
  assumes "CHR ''{'' \<notin> set s"
  shows "search_braces s = None"
  unfolding search_braces_def dropWhile_absent[OF assms] by (simp only: list.case)

text \<open>
  Claim C6, as amended. The parser ends with "Failed to parse quiz response." exactly when
  \<^verbatim>\<open>json.loads\<close> raises \<^verbatim>\<open>JSONDecodeError\<close> on the cleaned text and does not succeed on the
  span from the first opening brace to the last closing brace after it, or there is no
  such span. It ends with "No questions were generated. Try with more text." when the parsed
  object has no \<^verbatim>\<open>quiz\<close> field or an empty list there. It ends with "Invalid question
  format received." when an entry of the quiz is a dict lacking one of the three keys and
  every entry before it is a dict with the three keys and a list of options.
\<close>

theorem parse_response_failures:
  "(parse_response loads rnd raw = Returned ''Failed to parse quiz response.'' \<longleftrightarrow>
       loads (clean_response raw) = JSONDecodeError
     \<and> (case search_braces (clean_response raw) of
          None \<Rightarrow> True | Some m \<Rightarrow> \<forall>quiz_data. loads m \<noteq> Decoded quiz_data))
   \<and> (CHR ''{'' \<notin> set before \<and> CHR ''}'' \<notin> set after \<longrightarrow>
        search_braces (before @ CHR ''{'' # mid @ CHR ''}'' # after)
          = Some (CHR ''{'' # mid @ [CHR ''}'']))
   \<and> (CHR ''{'' \<notin> set raw \<longrightarrow> search_braces raw = None)
   \<and> (load_quiz_data loads (clean_response raw) = Continue (JObj kv)
       \<and> (map_of kv ''quiz'' = None \<or> map_of kv ''quiz'' = Some (JArr []))
      \<longrightarrow> parse_response loads rnd raw
            = Returned ''No questions were generated. Try with more text.'')
   \<and> (load_quiz_data loads (clean_response raw) = Continue (JObj kv)
       \<and> map_of kv ''quiz'' = Some (JArr (pre @ JObj qkv # post))
       \<and> \<not> {''options'', ''answer'', ''question''} \<subseteq> fst ` set qkv
       \<and> (\<forall>p\<in>set pre. \<exists>pkv opts. p = JObj pkv
              \<and> {''options'', ''answer'', ''question''} \<subseteq> fst ` set pkv
              \<and> map_of pkv ''options'' = Some (JArr opts))
      \<longrightarrow> parse_response loads rnd raw = Returned ''Invalid question format received.'')"
proof (intro conjI impI)
  show "parse_response loads rnd raw = Returned ''Failed to parse quiz response.'' \<longleftrightarrow>
       loads (clean_response raw) = JSONDecodeError
     \<and> (case search_braces (clean_response raw) of
          None \<Rightarrow> True | Some m \<Rightarrow> \<forall>quiz_data. loads m \<noteq> Decoded quiz_data)"
    by (simp only: parse_response_fails_iff load_quiz_data_fails_iff)
next
  assume "CHR ''{'' \<notin> set before \<and> CHR ''}'' \<notin> set after"
  then show "search_braces (before @ CHR ''{'' # mid @ CHR ''}'' # after)
          = Some (CHR ''{'' # mid @ [CHR ''}''])"
    by (simp add: search_braces_span)
next
  assume "CHR ''{'' \<notin> set raw"
  then show "search_braces raw = None"
    by (rule search_braces_no_brace)
next
  assume "load_quiz_data loads (clean_response raw) = Continue (JObj kv)
       \<and> (map_of kv ''quiz'' = None \<or> map_of kv ''quiz'' = Some (JArr []))"
  then show "parse_response loads rnd raw
            = Returned ''No questions were generated. Try with more text.''"
    by (auto simp: parse_response_def check_and_shuffle_def)
next
  assume a: "load_quiz_data loads (clean_response raw) = Continue (JObj kv)
       \<and> map_of kv ''quiz'' = Some (JArr (pre @ JObj qkv # post))
       \<and> \<not> {''options'', ''answer'', ''question''} \<subseteq> fst ` set qkv
       \<and> (\<forall>p\<in>set pre. \<exists>pkv opts. p = JObj pkv
              \<and> {''options'', ''answer'', ''question''} \<subseteq> fst ` set pkv
              \<and> map_of pkv ''options'' = Some (JArr opts))"
  then have "shuffle_questions rnd 0 (pre @ JObj qkv # post)
           = Returned ''Invalid question format received.''"
    by (intro shuffle_questions_stop) simp_all
  with a show "parse_response loads rnd raw = Returned ''Invalid question format received.''"
    by (simp add: parse_response_def check_and_shuffle_def)
qed

theorem parse_response_failures_witness:
  "parse_response (\<lambda>x. JSONDecodeError) (\<lambda>j. 0) ''no json here''
     = Returned ''Failed to parse quiz response.''
   \<and> parse_response (\<lambda>x. JSONDecodeError) (\<lambda>j. 0) ''so {not json} then''
     = Returned ''Failed to parse quiz response.''
   \<and> search_braces ''so {not json} then'' = Some ''{not json}''
   \<and> parse_response
       (\<lambda>x. if x = ''{}'' then Decoded (JObj [(''quiz'', JArr [])]) else JSONDecodeError)
       (\<lambda>j. 0) ''Here: {} ok''
     = Returned ''No questions were generated. Try with more text.''
   \<and> parse_response
       (\<lambda>x. Decoded (JObj [(''quiz'', JArr
          [JObj [(''question'', JStr ''Q1''), (''options'', JArr [JStr ''a) A'', JStr ''b) B'']),
                 (''answer'', JStr ''a) A'')],
           JObj [(''question'', JStr ''Q2''), (''options'', JArr [JStr ''a) C'', JStr ''b) D''])]])]))
       (\<lambda>j. 0) ''{}''
     = Returned ''Invalid question format received.''"
proof -
  let ?good = "JObj [(''question'', JStr ''Q1''),
                 (''options'', JArr [JStr ''a) A'', JStr ''b) B'']), (''answer'', JStr ''a) A'')]"
  let ?bad = "[(''question'', JStr ''Q2''), (''options'', JArr [JStr ''a) C'', JStr ''b) D''])]"
  let ?kv = "[(''quiz'', JArr [?good, JObj ?bad])]"
  let ?l = "\<lambda>x. if x = ''{}'' then Decoded (JObj [(''quiz'', JArr [])]) else JSONDecodeError"
  have c1: "clean_response ''Here: {} ok'' = ''Here: {} ok''"
    by (simp add: clean_response_def strip_def strip_open_fence_def fence_open_def
        fence_close_def match_close_fence_def isspace_def)
  have 1: "parse_response (\<lambda>x. JSONDecodeError) (\<lambda>j. 0) ''no json here''
     = Returned ''Failed to parse quiz response.''"
    using parse_response_failures[of "\<lambda>x. JSONDecodeError" "\<lambda>j. 0" "''no json here''"]
    by (simp split: option.splits)
  have s: "search_braces ''so {not json} then'' = Some ''{not json}''"
    using parse_response_failures[of _ _ _ "''so ''" "'' then''" "''not json''"]
    by simp
  have 2: "parse_response (\<lambda>x. JSONDecodeError) (\<lambda>j. 0) ''so {not json} then''
     = Returned ''Failed to parse quiz response.''"
    using parse_response_failures[of "\<lambda>x. JSONDecodeError" "\<lambda>j. 0" "''so {not json} then''"]
    by (simp split: option.splits)
  have s3: "search_braces ''Here: {} ok'' = Some ''{}''"
    using parse_response_failures[of _ _ _ "''Here: ''" "'' ok''" "[]"]
    by simp
  have 3: "parse_response ?l (\<lambda>j. 0) ''Here: {} ok''
     = Returned ''No questions were generated. Try with more text.''"
    using parse_response_failures[of ?l "\<lambda>j. 0" "''Here: {} ok''" _ _ _ "[(''quiz'', JArr [])]"]
    by (simp add: load_quiz_data_def c1 s3)
  have 4: "parse_response (\<lambda>x. Decoded (JObj ?kv)) (\<lambda>j. 0) ''{}''
     = Returned ''Invalid question format received.''"
    using parse_response_failures[of "\<lambda>x. Decoded (JObj ?kv)" "\<lambda>j. 0" "''{}''" _ _ _
        ?kv "[?good]" ?bad "[]"]
    by (simp add: load_quiz_data_def)
  from 1 2 s 3 4 show ?thesis by blast
qed

text \<open>
  Claim C6 as stated fails in two places. It promises "Failed to parse quiz response"
  whenever both parses fail: but when the first \<^verbatim>\<open>json.loads\<close> raises something other than
  \<^verbatim>\<open>JSONDecodeError\<close>, line 97 does not catch it and no second parse is tried. And it
  promises "Invalid question format received" whenever some entry lacks a key: here the
  second entry has no answer, but the first one, which has all three keys, gives its
  options as one string, and \<^verbatim>\<open>random.shuffle\<close> raises on it before the second entry is
  looked at. Both calls end with the exception, which \<^verbatim>\<open>generate_quiz\<close> reports as
  "Unexpected error: ...".
\<close>

theorem unshuffleable_options_before_missing_key:
  "parse_response (\<lambda>x. DecodeRaised ''maximum recursion depth exceeded'') (\<lambda>j. 0) ''[[[[''
     = Raised (OtherException ''maximum recursion depth exceeded'')
   \<and> ''answer'' \<notin> fst ` set [(''question'', JStr ''Q2''), (''options'', JArr [JStr ''a) C'', JStr ''b) D''])]
   \<and> parse_response
       (\<lambda>x. Decoded (JObj [(''quiz'', JArr
          [JObj [(''question'', JStr ''Q1''), (''options'', JStr ''a) A, b) B''),
                 (''answer'', JStr ''a) A'')],
           JObj [(''question'', JStr ''Q2''), (''options'', JArr [JStr ''a) C'', JStr ''b) D''])]])]))
       (\<lambda>j. 0) ''{}''
     = Raised (OtherException (quoted ''str'' @ '' object does not support item assignment''))"
  by (simp add: parse_response_def load_quiz_data_def check_and_shuffle_def
      shuffle_question_def has_keys_def)

end
